(* ===== verification/Prelude.thy ===== *)
theory Prelude
  imports Main "HOL-Library.Word" "HOL-Library.Multiset"
begin

text \<open>
  Shared vocabulary of the development: machine integers at their C width, error codes and
  results, undefined behaviour as a value, byte arrays and the C string routines the modules
  use, and the generic lemmas on lists and words the components rely on.
\<close>

unbundle bit_operations_syntax

named_theorems accounting \<open>what decides whether a release or an unmapping is allowed\<close>

section \<open>Machine integers and addresses\<close>

type_synonym byte = "8 word"
type_synonym u16 = "16 word"
type_synonym u32 = "32 word"
type_synonym u64 = "64 word"

text \<open>Kernel and user pointers of the 64-bit target; 0 is NULL.\<close>

type_synonym addr = u64

abbreviation (input) NULL :: addr where "NULL \<equiv> 0"

lemma unat_u64_lt: "unat (w :: u64) < 2 ^ 64"
  using unsigned_less [where w = w and 'a = nat] by simp

text \<open>A word that is not negative as a signed number reads the same unsigned.\<close>

lemma sint_nonneg:
  assumes "0 \<le> sint (off :: u64)"
  obtains u where "sint off = int u" and "unat off = u" and "u < 2 ^ 63"
proof -
  have "sint off < 2 ^ 63" using sint_lt [of off] by simp
  with assms have "sint off mod 2 ^ 64 = sint off" by simp
  with uint_word_of_int [of "sint off", where 'a = 64] have "uint off = sint off" by simp
  with \<open>sint off < 2 ^ 63\<close> assms have "sint off = int (nat (uint off))" and "nat (uint off) < 2 ^ 63"
    by simp_all
  moreover have "unat off = nat (uint off)" by (rule unat_eq_nat_uint)
  ultimately show thesis using that [of "nat (uint off)"] by blast
qed

section \<open>Results\<close>

text \<open>
  The error codes the modules return themselves, and \<open>EKERNEL r\<close> for a code that a kernel
  function returned and the module hands on unchanged.
\<close>

datatype errno = EIO | ENOMEM | EFAULT | EBUSY | EINVAL | ENOTTY | ERESTARTSYS | EKERNEL int

text \<open>
  \<open>Ret v\<close> is a call that came back with \<open>v\<close>; \<open>Fault\<close> is an access the C program must not
  make (a NULL dereference, an index outside its array).
\<close>

datatype 'a exec = Ret 'a | Fault

fun exec_bind :: "'a exec \<Rightarrow> ('a \<Rightarrow> 'b exec) \<Rightarrow> 'b exec" where
  "exec_bind (Ret x) f = f x"
| "exec_bind Fault f = Fault"

lemma exec_bind_Ret_iff: "exec_bind m f = Ret y \<longleftrightarrow> (\<exists>x. m = Ret x \<and> f x = Ret y)"
  by (cases m) auto

section \<open>Bytes, arrays and C strings\<close>

definition str_bytes :: "string \<Rightarrow> byte list" where
  "str_bytes s = map of_char s"

lemma length_str_bytes [simp]: "length (str_bytes s) = length s"
  by (simp add: str_bytes_def)

text \<open>A C string in memory ends at its first NUL.\<close>

definition cstr :: "byte list \<Rightarrow> byte list" where
  "cstr bs = takeWhile (\<lambda>b. b \<noteq> 0) bs"

lemma cstr_append_NUL [simp]: "cstr (bs @ [0]) = cstr bs"
  by (induction bs) (simp_all add: cstr_def)

text \<open>Overwriting part of an array: the bytes \<open>bs\<close> stored from index \<open>off\<close> on.\<close>

definition blit :: "'a list \<Rightarrow> nat \<Rightarrow> 'a list \<Rightarrow> 'a list" where
  "blit xs off bs = take off xs @ bs @ drop (off + length bs) xs"

lemma length_blit [simp]:
  "off + length bs \<le> length xs \<Longrightarrow> length (blit xs off bs) = length xs"
  by (simp add: blit_def)

lemma blit_Nil [simp]: "blit xs off [] = xs"
  by (simp add: blit_def)

lemma blit_Cons:
  "off < length xs \<Longrightarrow> blit xs off (b # bs) = blit (xs[off := b]) (off + 1) bs"
  by (simp add: blit_def take_Suc_conv_app_nth)

lemma nth_blit:
  assumes "off + length bs \<le> length xs" and "i < length xs"
  shows "blit xs off bs ! i = (if off \<le> i \<and> i < off + length bs then bs ! (i - off) else xs ! i)"
  using assms by (auto simp: blit_def nth_append)

lemma blit_snoc:
  assumes "off + length bs < length xs"
  shows "blit xs off (bs @ [b]) = (blit xs off bs)[off + length bs := b]"
  by (rule nth_equalityI) (use assms in \<open>auto simp: nth_blit nth_list_update nth_append\<close>)

text \<open>
  \<open>strcpy\<close> into an array of known size: the characters and the terminating NUL; a source
  that does not fit is written past the end of the array.
\<close>

definition strcpy :: "byte list \<Rightarrow> byte list \<Rightarrow> byte list exec" where
  "strcpy dst s = (if length s < length dst then Ret (blit dst 0 (s @ [0])) else Fault)"

text \<open>The object representation of a 32-bit integer on the little-endian target.\<close>

definition le32 :: "u32 \<Rightarrow> byte list" where
  "le32 w = [ucast w, ucast (drop_bit 8 w), ucast (drop_bit 16 w), ucast (drop_bit 24 w)]"

fun of_le32 :: "byte list \<Rightarrow> u32" where
  "of_le32 [a, b, c, d] =
     ucast a OR push_bit 8 (ucast b) OR push_bit 16 (ucast c) OR push_bit 24 (ucast d)"
| "of_le32 _ = 0"

lemma length_le32 [simp]: "length (le32 w) = 4"
  by (simp add: le32_def)

lemma of_le32_le32 [simp]: "of_le32 (le32 w) = w"
  by (rule bit_word_eqI)
    (auto simp: le32_def bit_simps not_less not_le dest: bit_imp_le_length intro: ccontr)

end
