(* ===== verification/Kernel.thy ===== *)
theory Kernel
  imports Prelude
begin

text \<open>
  The kernel as the modules see it. The kernel's own code is not part of the repository: what
  a kernel function returns is an argument of the model (a function or a return value), and
  what a handler does to the kernel is the list of the calls it makes. This theory holds the
  calls, the resources they hand out and take back, the accounting that decides whether a
  list of calls uses them properly, and the contract of a PCI driver stated over it.
\<close>

section \<open>User memory\<close>

text \<open>
  \<open>copy_from_user\<close> as an argument: from a user address and a length, the number of bytes
  that could not be copied and the bytes stored at the destination. The kernel documents that
  it pads what it could not copy with zeros, so the destination is always written in full.
\<close>

type_synonym copy_from_user = "addr \<Rightarrow> nat \<Rightarrow> nat \<times> byte list"

definition cfu_ok :: "(addr \<Rightarrow> byte) \<Rightarrow> copy_from_user \<Rightarrow> bool" where
  "cfu_ok um f \<longleftrightarrow> (\<forall>a n. fst (f a n) \<le> n \<and>
     snd (f a n) = map (\<lambda>i. um (a + of_nat i)) [0..<n - fst (f a n)] @ replicate (fst (f a n)) 0)"

lemma cfu_ok_length: "cfu_ok um f \<Longrightarrow> f a n = (nc, bs) \<Longrightarrow> length bs = n"
  by (auto simp: cfu_ok_def dest!: spec [of _ a] spec [of _ n])

lemma cfu_ok_full:
  "cfu_ok um f \<Longrightarrow> f a n = (0, bs) \<Longrightarrow> bs = map (\<lambda>i. um (a + of_nat i)) [0..<n]"
  by (auto simp: cfu_ok_def dest!: spec [of _ a] spec [of _ n])

text \<open>A user memory in which every address can be read.\<close>

definition cfu_all :: "(addr \<Rightarrow> byte) \<Rightarrow> copy_from_user" where
  "cfu_all um a n = (0, map (\<lambda>i. um (a + of_nat i)) [0..<n])"

lemma cfu_ok_cfu_all: "cfu_ok um (cfu_all um)"
  by (simp add: cfu_ok_def cfu_all_def)

text \<open>
  \<open>copy_to_user\<close> as an argument: from a user address and the bytes to copy, the number that
  could not be copied. The bytes that reached user memory are the others, in order.
\<close>

type_synonym copy_to_user = "addr \<Rightarrow> byte list \<Rightarrow> nat"
type_synonym user_writes = "(addr \<times> byte list) list"

definition delivered :: "addr \<Rightarrow> byte list \<Rightarrow> nat \<Rightarrow> user_writes" where
  "delivered a bs nc = [(a, take (length bs - nc) bs)]"

text \<open>
  \<open>simple_read_from_buffer\<close> as an argument: from a user address, a count, a position and the
  buffer, the result, the position afterwards and what reached user memory. The kernel
  documents that it reads up to \<open>count\<close> bytes from the position on, returns their number and
  advances the position by it, or returns an error.
\<close>

type_synonym simple_read =
  "addr \<Rightarrow> u64 \<Rightarrow> u64 \<Rightarrow> byte list \<Rightarrow> (errno + u64) \<times> u64 \<times> user_writes"

definition srfb_ok :: "simple_read \<Rightarrow> bool" where
  "srfb_ok f \<longleftrightarrow> (\<forall>to cnt pos from. 0 \<le> sint pos \<longrightarrow>
     (case f to cnt pos from of
        (Inr n, pos1, ws) \<Rightarrow> unat n \<le> unat cnt \<and> unat n \<le> length from - unat pos \<and>
          pos1 = pos + n \<and> ws = [(to, take (unat n) (drop (unat pos) from))]
      | (Inl e, pos1, ws) \<Rightarrow> pos1 = pos))"

text \<open>An instance, for a user memory that takes everything.\<close>

definition srfb_all :: simple_read where
  "srfb_all to cnt pos from =
     (let n = of_nat (min (unat cnt) (length from - unat pos))
      in (Inr n, pos + n, [(to, take (unat n) (drop (unat pos) from))]))"

lemma srfb_ok_all: "srfb_ok srfb_all"
proof -
  have "unat (of_nat (min (unat cnt) m) :: u64) = min (unat cnt) m" for cnt :: u64 and m
    using unat_u64_lt [of cnt] by (simp add: unat_of_nat min.strict_coboundedI1)
  then show ?thesis by (simp add: srfb_ok_def srfb_all_def Let_def)
qed

text \<open>
  The virtual file system hands a read or a write an offset and a count that are not
  negative as signed numbers.
\<close>

definition vfs_args :: "u64 \<Rightarrow> u64 \<Rightarrow> bool" where
  "vfs_args off cnt \<longleftrightarrow> 0 \<le> sint off \<and> 0 \<le> sint cnt"

lemma no_wrap:
  assumes "vfs_args off cnt"
  shows "unat (cnt + 1) = unat cnt + 1"
proof -
  obtain v where "unat cnt = v" "v < 2 ^ 63"
    using sint_nonneg assms unfolding vfs_args_def by blast
  then show ?thesis by (simp add: unat_word_ariths)
qed

text \<open>
  \<open>simple_write_to_buffer\<close> as an argument: from the buffer, the number of bytes it can take, the
  offset, the user address and the count to the result, the offset afterwards and the content.
  The kernel documents that it writes at most \<open>count\<close> bytes from the offset on and inside the
  buffer, and advances the offset by the number it returns.
\<close>

type_synonym simple_write =
  "byte list \<Rightarrow> nat \<Rightarrow> u64 \<Rightarrow> addr \<Rightarrow> u64 \<Rightarrow> (errno + u64) \<times> u64 \<times> byte list"

definition swtb_ok :: "simple_write \<Rightarrow> bool" where
  "swtb_ok f \<longleftrightarrow> (\<forall>mem avail pos from cnt. 0 \<le> sint pos \<longrightarrow> avail \<le> length mem \<longrightarrow>
     (case f mem avail pos from cnt of (r, pos1, mem1) \<Rightarrow>
        length mem1 = length mem \<and>
        (\<forall>i < length mem. i < unat pos \<or> unat pos + unat cnt \<le> i \<or> avail \<le> i \<longrightarrow> mem1 ! i = mem ! i) \<and>
        (case r of Inl e \<Rightarrow> pos1 = pos
         | Inr n \<Rightarrow> unat n \<le> unat cnt \<and> unat n \<le> avail - unat pos \<and> pos1 = pos + n)))"

lemma swtb_ok_length:
  assumes "swtb_ok f" and "0 \<le> sint pos" and "avail \<le> length mem"
    and "f mem avail pos buf cnt = (r, pos1, mem1)"
  shows "length mem1 = length mem"
  using assms(1) [unfolded swtb_ok_def, THEN spec [of _ mem], THEN spec [of _ avail],
      THEN spec [of _ pos], THEN spec [of _ buf], THEN spec [of _ cnt]] assms(2-4)
  by simp

text \<open>An instance, for a user memory full of the same byte.\<close>

definition swtb_fill :: "byte \<Rightarrow> simple_write" where
  "swtb_fill v mem avail pos from cnt =
     (let n = min (unat cnt) (avail - unat pos)
      in (Inr (of_nat n), pos + of_nat n, blit mem (unat pos) (replicate n v)))"

lemma swtb_ok_fill: "swtb_ok (swtb_fill v)"
proof -
  have n: "unat (of_nat (min (unat cnt) m) :: u64) = min (unat cnt) m" for cnt :: u64 and m
    using unat_u64_lt [of cnt] by (simp add: unat_of_nat min.strict_coboundedI1)
  have b: "length (blit mem off (replicate k v)) = length mem \<and>
      (\<forall>i < length mem. i < off \<or> off + k \<le> i \<longrightarrow> blit mem off (replicate k v) ! i = mem ! i)"
    if "avail \<le> length mem" and "k \<le> avail - off" for mem off avail k
  proof (cases "k = 0")
    case False
    with that have "off + k \<le> length mem" by linarith
    then show ?thesis by (auto simp: nth_blit)
  qed simp
  show ?thesis
    unfolding swtb_ok_def swtb_fill_def Let_def prod.case sum.case n
  proof (intro allI impI conjI)
    fix mem :: "byte list" and avail pos frm cnt i
    let ?k = "min (unat cnt) (avail - unat pos)"
    assume a: "avail \<le> length mem"
    have k: "?k \<le> avail - unat pos" by simp
    show "length (blit mem (unat pos) (replicate ?k v)) = length mem" using b [OF a k] by blast
    assume i: "i < length mem" "i < unat pos \<or> unat pos + unat cnt \<le> i \<or> avail \<le> i"
    then have "?k = 0 \<or> i < unat pos \<or> unat pos + ?k \<le> i" by linarith
    with b [OF a k] i show "blit mem (unat pos) (replicate ?k v) ! i = mem ! i" by auto
  qed simp_all
qed

section \<open>Memory mappings\<close>

text \<open>
  A process asks for a range of addresses \<open>vm_start\<close> up to \<open>vm_end\<close>, backed from the page
  \<open>vm_pgoff\<close> of the file on; bits 0 and 1 of the flags ask for reading and writing.
\<close>

definition PAGE_SIZE :: u64 where "PAGE_SIZE = 4096"
definition VM_READ :: u64 where "VM_READ = 1"
definition VM_WRITE :: u64 where "VM_WRITE = 2"

record vm_area =
  vm_start :: u64
  vm_end :: u64
  vm_pgoff :: u64
  vm_flags :: u64

section \<open>Kernel calls\<close>

text \<open>
  One constructor per kernel function with an effect, its arguments and, where the call can
  fail, what it returned (0 is success for an integer, NULL is failure for a pointer). A PCI
  device is named by a number, a mapping, an allocation, a timer or a callback cookie by its
  address; \<open>Readl b off\<close> and \<open>Writel v b off\<close> access the register at byte offset \<open>off\<close> of
  the mapping \<open>b\<close>.
\<close>

datatype kcall =
    Printk "byte list"
  | Pci_enable_device nat int | Pci_disable_device nat
  | Pci_set_dma_mask nat int | Pci_set_master nat
  | Pci_request_regions nat int | Pci_release_regions nat
  | Kmalloc addr | Kfree addr
  | Ioremap addr | Iounmap addr
  | Request_irq addr int | Free_irq addr
  | Dma_alloc addr | Dma_free addr | Dma_store addr nat "byte list"
  | Setup_timer addr | Mod_timer addr | Del_timer_sync addr
  | Tasklet_init addr addr | Tasklet_schedule addr | Tasklet_kill addr
  | Cdev_add nat int | Cdev_del nat
  | Device_create nat bool | Device_destroy nat
  | Set_drvdata nat addr
  | Readl addr nat | Writel u32 addr nat
  | Class_create bool | Class_destroy
  | Alloc_chrdev_region int | Unregister_chrdev_region
  | Pci_register_driver int | Pci_unregister_driver
  | Misc_register nat int | Misc_deregister nat
  | Debugfs_create addr | Debugfs_remove addr
  | Vmalloc addr | Vfree addr
  | Get_free_page addr | Free_page addr
  | Pci_dev_get nat | Pci_dev_put nat
  | Alloc_skb addr | Free_skb addr | Netif_rx addr
  | Alloc_etherdev addr | Free_netdev addr | Register_netdev int | Unregister_netdev

text \<open>
  The locks a handler takes and leaves, by name; \<open>lock_run\<close> gives the locks held after a list
  of lock calls, innermost first, and \<open>None\<close> for a lock taken twice or a lock released that
  is not the innermost one held.
\<close>

datatype lockcall = Lock string | Unlock string

fun lock_run :: "lockcall list \<Rightarrow> string list \<Rightarrow> string list option" where
  "lock_run [] hs = Some hs"
| "lock_run (Lock l # cs) hs = (if l \<in> set hs then None else lock_run cs (l # hs))"
| "lock_run (Unlock l # cs) [] = None"
| "lock_run (Unlock l # cs) (h # hs) = (if l = h then lock_run cs hs else None)"

section \<open>Resource accounting\<close>

text \<open>What a call hands out: the module owes the kernel the matching release.\<close>

datatype kres =
    DevEnabled nat | Regions nat | Mem addr | Mapped addr | Irq addr | DmaPage addr
  | Armed addr | Queued addr | Chrdev nat | Node nat
  | Class | ChrdevRegion | PciDriver | MiscDev nat | DebugFile addr | VMem addr | Page addr | DevRef nat
  | Skb addr | Netdev addr | NetRegistered

text \<open>
  A callback that can run at any moment: a registered interrupt handler, a pending timer, a
  scheduled tasklet.
\<close>

fun callback :: "kres \<Rightarrow> bool" where
  "callback (Irq _) = True"
| "callback (Armed _) = True"
| "callback (Queued _) = True"
| "callback _ = False"

definition callbacks_live :: "kres multiset \<Rightarrow> bool" where
  "callbacks_live H \<longleftrightarrow> (\<exists>r \<in># H. callback r)"

definition give_back :: "kres \<Rightarrow> kres multiset \<Rightarrow> kres multiset option" where
  "give_back r H = (if r \<in># H then Some (H - {#r#}) else None)"

declare callbacks_live_def [accounting] give_back_def [accounting]

text \<open>
  The resources held after a call, \<open>None\<close> for a call the kernel does not allow: a release of
  something not held, a register access through a mapping that is not there, an allocation
  freed while it is the cookie of a live callback, an unmapping under a live callback.
  A tasklet can only be initialised, scheduled and killed in memory that is allocated.
  Removing a timer that is not pending and a device node that does not exist are allowed, as
  is freeing NULL.
\<close>

fun kres_step :: "kcall \<Rightarrow> kres multiset \<Rightarrow> kres multiset option" where
  "kres_step (Pci_enable_device d r) H = Some (if r = 0 then add_mset (DevEnabled d) H else H)"
| "kres_step (Pci_disable_device d) H = give_back (DevEnabled d) H"
| "kres_step (Pci_request_regions d r) H = Some (if r = 0 then add_mset (Regions d) H else H)"
| "kres_step (Pci_release_regions d) H = give_back (Regions d) H"
| "kres_step (Kmalloc p) H = Some (if p \<noteq> NULL then add_mset (Mem p) H else H)"
| "kres_step (Kfree p) H =
     (if p = NULL then Some H
      else if Irq p \<in># H \<or> Armed p \<in># H \<or> Queued p \<in># H then None else give_back (Mem p) H)"
| "kres_step (Ioremap b) H = Some (if b \<noteq> NULL then add_mset (Mapped b) H else H)"
| "kres_step (Iounmap b) H = (if callbacks_live H then None else give_back (Mapped b) H)"
| "kres_step (Request_irq c r) H = Some (if r = 0 then add_mset (Irq c) H else H)"
| "kres_step (Free_irq c) H = give_back (Irq c) H"
| "kres_step (Dma_alloc p) H = Some (if p \<noteq> NULL then add_mset (DmaPage p) H else H)"
| "kres_step (Dma_free p) H = give_back (DmaPage p) H"
| "kres_step (Mod_timer t) H = Some (if Armed t \<in># H then H else add_mset (Armed t) H)"
| "kres_step (Del_timer_sync t) H = Some (H - {#Armed t#})"
| "kres_step (Dma_store p off bs) H = (if DmaPage p \<in># H then Some H else None)"
| "kres_step (Tasklet_init t x) H = (if Mem t \<in># H then Some H else None)"
| "kres_step (Tasklet_schedule t) H =
     (if Mem t \<in># H then Some (if Queued t \<in># H then H else add_mset (Queued t) H) else None)"
| "kres_step (Tasklet_kill t) H = (if Mem t \<in># H then Some (H - {#Queued t#}) else None)"
| "kres_step (Cdev_add m r) H = Some (if r = 0 then add_mset (Chrdev m) H else H)"
| "kres_step (Cdev_del m) H = give_back (Chrdev m) H"
| "kres_step (Device_create m created) H = Some (if created then add_mset (Node m) H else H)"
| "kres_step (Device_destroy m) H = Some (H - {#Node m#})"
| "kres_step (Readl b off) H = (if Mapped b \<in># H then Some H else None)"
| "kres_step (Writel v b off) H = (if Mapped b \<in># H then Some H else None)"
| "kres_step (Class_create created) H = Some (if created then add_mset Class H else H)"
| "kres_step Class_destroy H = give_back Class H"
| "kres_step (Alloc_chrdev_region r) H = Some (if r = 0 then add_mset ChrdevRegion H else H)"
| "kres_step Unregister_chrdev_region H = give_back ChrdevRegion H"
| "kres_step (Pci_register_driver r) H = Some (if r = 0 then add_mset PciDriver H else H)"
| "kres_step Pci_unregister_driver H = give_back PciDriver H"
| "kres_step (Misc_register n r) H = Some (if r = 0 then add_mset (MiscDev n) H else H)"
| "kres_step (Misc_deregister n) H = give_back (MiscDev n) H"
| "kres_step (Debugfs_create p) H = Some (if p \<noteq> NULL then add_mset (DebugFile p) H else H)"
| "kres_step (Debugfs_remove p) H = (if p = NULL then Some H else give_back (DebugFile p) H)"
| "kres_step (Vmalloc p) H = Some (if p \<noteq> NULL then add_mset (VMem p) H else H)"
| "kres_step (Vfree p) H = (if p = NULL then Some H else give_back (VMem p) H)"
| "kres_step (Get_free_page p) H = Some (if p \<noteq> NULL then add_mset (Page p) H else H)"
| "kres_step (Free_page p) H = (if p = NULL then Some H else give_back (Page p) H)"
| "kres_step (Pci_dev_get d) H = Some (add_mset (DevRef d) H)"
| "kres_step (Pci_dev_put d) H = give_back (DevRef d) H"
| "kres_step (Alloc_skb p) H = Some (if p \<noteq> NULL then add_mset (Skb p) H else H)"
| "kres_step (Free_skb p) H = give_back (Skb p) H"
| "kres_step (Netif_rx p) H = give_back (Skb p) H"
| "kres_step (Alloc_etherdev p) H = Some (if p \<noteq> NULL then add_mset (Netdev p) H else H)"
| "kres_step (Free_netdev p) H =
     (if NetRegistered \<in># H \<or> callbacks_live H then None else give_back (Netdev p) H)"
| "kres_step (Register_netdev r) H = Some (if r = 0 then add_mset NetRegistered H else H)"
| "kres_step Unregister_netdev H = give_back NetRegistered H"
| "kres_step _ H = Some H"

fun kres_run :: "kcall list \<Rightarrow> kres multiset \<Rightarrow> kres multiset option" where
  "kres_run [] H = Some H"
| "kres_run (c # cs) H = (case kres_step c H of None \<Rightarrow> None | Some H' \<Rightarrow> kres_run cs H')"

lemma kres_run_append:
  "kres_run (xs @ ys) H = (case kres_run xs H of None \<Rightarrow> None | Some H' \<Rightarrow> kres_run ys H')"
  by (induction xs arbitrary: H) (auto split: option.splits)

text \<open>
  Resources that no call in between can notice do not change what a list of calls does: the
  frame of an execution. Callbacks, device nodes and a registered network device are noticed
  (an unmapping asks whether any callback is live), everything else is not.
\<close>

definition inert :: "kres multiset \<Rightarrow> bool" where
  "inert G \<longleftrightarrow> (\<forall>r \<in># G. \<not> callback r \<and> (\<forall>m. r \<noteq> Node m) \<and> r \<noteq> NetRegistered)"

lemma inert_notin: "inert G \<Longrightarrow> callback r \<or> (\<exists>m. r = Node m) \<or> r = NetRegistered \<Longrightarrow> r \<notin># G"
  by (auto simp: inert_def)

lemma inert_live: "inert G \<Longrightarrow> callbacks_live (H + G) = callbacks_live H"
  by (auto simp: inert_def callbacks_live_def)

lemma give_back_frame: "give_back r H = Some H1 \<Longrightarrow> give_back r (H + G) = Some (H1 + G)"
  by (auto simp: give_back_def split: if_splits)

lemma diff_frame: "r \<notin># G \<Longrightarrow> H + G - {#r#} = H - {#r#} + G"
  by (cases "r \<in># H") (simp_all add: diff_single_trivial)

lemma kres_step_frame:
  assumes "inert G" and "kres_step c H = Some H1"
  shows "kres_step c (H + G) = Some (H1 + G)"
  using assms(2) inert_notin [OF assms(1)] inert_live [OF assms(1)]
  by (cases c) (auto simp: give_back_frame diff_frame split: if_splits)

lemma kres_run_frame:
  "inert G \<Longrightarrow> kres_run cs H = Some H1 \<Longrightarrow> kres_run cs (H + G) = Some (H1 + G)"
proof (induction cs arbitrary: H)
  case Nil
  then show ?case by simp
next
  case (Cons c cs)
  then obtain H2 where H2: "kres_step c H = Some H2" "kres_run cs H2 = Some H1"
    by (auto split: option.splits)
  then show ?case using Cons kres_step_frame [OF Cons.prems(1) H2(1)] by simp
qed

lemma kres_run_append_Some:
  "kres_run xs H = Some H' \<Longrightarrow> kres_run (xs @ ys) H = kres_run ys H'"
  by (simp add: kres_run_append)

end
