(* ===== verification/Pci_Driver.thy ===== *)
theory Pci_Driver
  imports Kernel
begin

text \<open>
  What the PCI core expects of a driver, as an interface: a \<open>probe\<close> that binds a device or
  fails, a \<open>remove\<close> that unbinds it, and the handlers that run in between (interrupts, timer
  callbacks, file operations). \<open>live st d H\<close> says which resources a bound device \<open>d\<close> may hold.
  The four PCI drivers of the repository are instances; the theorems on whole life cycles are
  proved here once.
\<close>

section \<open>Hotplug histories\<close>

text \<open>
  A history is a list of attempts. An attempt is a probe with the answers the kernel gives
  it; if the probe binds the device, some handlers run and the device is removed.
\<close>

fun hotplug ::
  "('st \<Rightarrow> 'env \<Rightarrow> 'st \<times> kcall list \<times> (errno + 'd)) \<Rightarrow> ('st \<Rightarrow> 'd \<Rightarrow> 'st \<times> kcall list) \<Rightarrow>
   ('st \<Rightarrow> 'd \<Rightarrow> 'ev \<Rightarrow> kcall list) \<Rightarrow> 'st \<Rightarrow> ('env \<times> 'ev list) list \<Rightarrow> 'st \<times> kcall list" where
  "hotplug probe remove handle st [] = (st, [])"
| "hotplug probe remove handle st ((e, evs) # cs) =
     (case probe st e of
        (st1, tr1, Inl _) \<Rightarrow>
          (let (st2, tr2) = hotplug probe remove handle st1 cs in (st2, tr1 @ tr2))
      | (st1, tr1, Inr d) \<Rightarrow>
          (let (st2, tr2) = remove st1 d; (st3, tr3) = hotplug probe remove handle st2 cs
           in (st3, tr1 @ concat (map (handle st1 d) evs) @ tr2 @ tr3)))"

section \<open>The contract\<close>

locale pci_driver =
  fixes probe :: "'st \<Rightarrow> 'env \<Rightarrow> 'st \<times> kcall list \<times> (errno + 'd)"
    and remove :: "'st \<Rightarrow> 'd \<Rightarrow> 'st \<times> kcall list"
    and handle :: "'st \<Rightarrow> 'd \<Rightarrow> 'ev \<Rightarrow> kcall list"
    and live :: "'st \<Rightarrow> 'd \<Rightarrow> kres multiset \<Rightarrow> bool"
    and ok :: "'env \<Rightarrow> bool"
  assumes probe_live:
      "ok e \<Longrightarrow> probe st e = (st1, tr, Inr d) \<Longrightarrow> \<exists>H. kres_run tr {#} = Some H \<and> live st1 d H"
    and handle_live: "live st d H \<Longrightarrow> \<exists>H1. kres_run (handle st d ev) H = Some H1 \<and> live st d H1"
    and remove_clean: "live st d H \<Longrightarrow> kres_run (snd (remove st d)) H = Some {#}"
begin

lemma handlers_live:
  "live st d H \<Longrightarrow> \<exists>H1. kres_run (concat (map (handle st d) evs)) H = Some H1 \<and> live st d H1"
proof (induction evs arbitrary: H)
  case Nil
  then show ?case by simp
next
  case (Cons ev evs)
  from handle_live [OF Cons.prems] obtain H1
    where "kres_run (handle st d ev) H = Some H1" and "live st d H1" by blast
  with Cons.IH show ?case by (auto simp: kres_run_append)
qed

lemma lifecycle:
  assumes "ok e" and "probe st e = (st1, tr, Inr d)"
  shows "kres_run (tr @ concat (map (handle st1 d) evs) @ snd (remove st1 d)) {#} = Some {#}"
proof -
  from probe_live [OF assms] obtain H where H: "kres_run tr {#} = Some H" "live st1 d H" by blast
  from handlers_live [OF H(2)] obtain H1
    where "kres_run (concat (map (handle st1 d) evs)) H = Some H1" and "live st1 d H1" by blast
  with H show ?thesis by (simp add: kres_run_append remove_clean)
qed

end

text \<open>
  A driver whose failing probe keeps what it had acquired: \<open>lost e\<close> are the resources that
  are held after a probe with the answers \<open>e\<close> and that nobody will ever release. What a whole
  history leaks is then the sum of what its probes lose.
\<close>

locale leaky_pci_driver = pci_driver +
  fixes lost :: "'b \<Rightarrow> kres multiset"
  assumes probe_lost:
      "ok e \<Longrightarrow> probe st e = (st1, tr, Inl err) \<Longrightarrow> kres_run tr {#} = Some (lost e)"
    and bound_lost: "ok e \<Longrightarrow> probe st e = (st1, tr, Inr d) \<Longrightarrow> lost e = {#}"
    and lost_inert: "ok e \<Longrightarrow> inert (lost e)"
begin

lemma hotplug_loses:
  assumes "\<forall>(e, evs) \<in> set cs. ok e"
  shows "kres_run (snd (hotplug probe remove handle st cs)) {#} =
    Some ((\<Sum>c \<leftarrow> cs. lost (fst c)))"
  using assms
proof (induction cs arbitrary: st)
  case Nil
  then show ?case by simp
next
  case (Cons c cs)
  obtain e evs where c: "c = (e, evs)" by (cases c)
  with Cons.prems have e: "ok e" and IH: "kres_run (snd (hotplug probe remove handle s cs)) {#} =
      Some ((\<Sum>c \<leftarrow> cs. lost (fst c)))" for s
    using Cons.IH [of s] by simp_all
  obtain st1 tr r where p: "probe st e = (st1, tr, r)" by (cases "probe st e") auto
  show ?case
  proof (cases r)
    case (Inl err)
    have "kres_run (snd (hotplug probe remove handle st1 cs)) (lost e) =
        Some ((\<Sum>c \<leftarrow> cs. lost (fst c)) + lost e)"
      using kres_run_frame [OF lost_inert [OF e] IH] by simp
    with probe_lost [OF e p [unfolded Inl]] p c Inl show ?thesis
      by (simp add: kres_run_append case_prod_unfold Let_def)
  next
    case (Inr d)
    with p e have "kres_run (tr @ concat (map (handle st1 d) evs) @ snd (remove st1 d)) {#} = Some {#}"
      by (intro lifecycle) auto
    from kres_run_append_Some [OF this] have
      "kres_run (tr @ concat (map (handle st1 d) evs) @ snd (remove st1 d) @ xs) {#} = kres_run xs {#}"
      for xs by simp
    with p c Inr IH bound_lost [OF e p [unfolded Inr]] show ?thesis
      by (simp add: case_prod_unfold Let_def)
  qed
qed

end

text \<open>
  The stronger contract of a driver whose failing probe leaves nothing behind and whose own
  state is, after a failure and after a removal, what it was before the probe.
\<close>

locale clean_pci_driver = pci_driver +
  fixes wf :: "'a \<Rightarrow> bool"
  assumes probe_fail: "wf st \<Longrightarrow> probe st e = (st1, tr, Inl err) \<Longrightarrow> st1 = st"
    and probe_fail_clean: "probe st e = (st1, tr, Inl err) \<Longrightarrow> kres_run tr {#} = Some {#}"
    and remove_undoes: "wf st \<Longrightarrow> probe st e = (st1, tr, Inr d) \<Longrightarrow> fst (remove st1 d) = st"

sublocale clean_pci_driver \<subseteq> leaky_pci_driver probe remove handle live ok "\<lambda>_. {#}"
  by unfold_locales (blast intro: probe_fail_clean, simp_all add: inert_def)

context clean_pci_driver
begin

lemma hotplug_leaves_nothing:
  assumes "\<forall>(e, evs) \<in> set cs. ok e"
  shows "kres_run (snd (hotplug probe remove handle st cs)) {#} = Some {#}"
  using hotplug_loses [OF assms] by (simp add: sum_list_0)

lemma hotplug_restores: "wf st \<Longrightarrow> fst (hotplug probe remove handle st cs) = st"
proof (induction cs)
  case Nil
  then show ?case by simp
next
  case (Cons c cs)
  obtain e evs where c: "c = (e, evs)" by (cases c)
  obtain st1 tr r where p: "probe st e = (st1, tr, r)" by (cases "probe st e") auto
  show ?case
  proof (cases r)
    case (Inl err)
    with p c Cons show ?thesis by (auto dest: probe_fail split: prod.split)
  next
    case (Inr d)
    from p Inr Cons.prems have "fst (remove st1 d) = st" by (auto dest: remove_undoes)
    with p c Inr Cons show ?thesis by (auto split: prod.split)
  qed
qed

end

end
