(* ===== verification/Exclusive.thy ===== *)
theory Exclusive
  imports Kernel
begin

text \<open>
  Exclusive open as an interface. Two devices of the repository let only one file be open at
  a time (the write device of the buffer, the phantom device). The virtual file system calls
  \<open>open\<close> with a mode and, for every open that succeeded, \<open>release\<close> once with the same mode.
\<close>

section \<open>The file system's side: open files and their releases\<close>

text \<open>A configuration is the driver's state and the open files, by number, with their mode.\<close>

inductive file_step ::
  "('m \<Rightarrow> 's \<Rightarrow> (errno + unit) \<times> 's) \<Rightarrow> ('m \<Rightarrow> 's \<Rightarrow> 's) \<Rightarrow>
   's \<times> (nat \<rightharpoonup> 'm) \<Rightarrow> 's \<times> (nat \<rightharpoonup> 'm) \<Rightarrow> bool"
  for opn rls where
  file_open: "files i = None \<Longrightarrow> opn m s = (Inr (), s1) \<Longrightarrow>
     file_step opn rls (s, files) (s1, files(i \<mapsto> m))"
| file_refused: "opn m s = (Inl er, s1) \<Longrightarrow> file_step opn rls (s, files) (s1, files)"
| file_release: "files i = Some m \<Longrightarrow> file_step opn rls (s, files) (rls m s, files(i := None))"

inductive file_reach ::
  "('m \<Rightarrow> 's \<Rightarrow> (errno + unit) \<times> 's) \<Rightarrow> ('m \<Rightarrow> 's \<Rightarrow> 's) \<Rightarrow> 's \<Rightarrow> 's \<times> (nat \<rightharpoonup> 'm) \<Rightarrow> bool"
  for opn rls s0 where
  file_start: "file_reach opn rls s0 (s0, Map.empty)"
| file_more: "file_reach opn rls s0 c \<Longrightarrow> file_step opn rls c c1 \<Longrightarrow> file_reach opn rls s0 c1"

section \<open>The contract\<close>

text \<open>
  \<open>excl m\<close>: an open in mode \<open>m\<close> claims the device; \<open>free\<close>: nobody has; \<open>inv\<close>: what the
  driver keeps of its counter.
\<close>

locale exclusive_open =
  fixes opn :: "'m \<Rightarrow> 's \<Rightarrow> (errno + unit) \<times> 's"
    and rls :: "'m \<Rightarrow> 's \<Rightarrow> 's"
    and excl :: "'m \<Rightarrow> bool"
    and free :: "'s \<Rightarrow> bool"
    and inv :: "'s \<Rightarrow> bool"
  assumes open_refused: "opn m s = (Inl er, s1) \<Longrightarrow> s1 = s"
    and open_excl: "inv s \<Longrightarrow> excl m \<Longrightarrow> opn m s = (Inr (), s1) \<Longrightarrow> free s \<and> \<not> free s1 \<and> inv s1"
    and open_shared: "\<not> excl m \<Longrightarrow> opn m s = (Inr (), s1) \<Longrightarrow> s1 = s"
    and release_excl: "inv s \<Longrightarrow> \<not> free s \<Longrightarrow> excl m \<Longrightarrow> free (rls m s) \<and> inv (rls m s)"
    and release_shared: "\<not> excl m \<Longrightarrow> rls m s = s"
begin

definition holds :: "(nat \<rightharpoonup> 'm) \<Rightarrow> nat \<Rightarrow> bool" where
  "holds files i \<longleftrightarrow> (\<exists>m. files i = Some m \<and> excl m)"

lemma holds_open_shared:
  "files i = None \<Longrightarrow> \<not> excl m \<Longrightarrow> holds (files(i \<mapsto> m)) = holds files"
  by (auto simp: holds_def fun_eq_iff)

lemma holds_open_excl: "excl m \<Longrightarrow> holds (files(i \<mapsto> m)) = (holds files)(i := True)"
  by (auto simp: holds_def fun_eq_iff)

lemma holds_release: "holds (files(i := None)) = (holds files)(i := False)"
  by (auto simp: holds_def fun_eq_iff)

text \<open>The driver's counter agrees with the open files, and at most one of them is exclusive.\<close>

definition agrees :: "'s \<times> (nat \<rightharpoonup> 'm) \<Rightarrow> bool" where
  "agrees c \<longleftrightarrow> inv (fst c) \<and> (free (fst c) \<longleftrightarrow> (\<forall>i. \<not> holds (snd c) i)) \<and>
     (\<forall>i j. holds (snd c) i \<longrightarrow> holds (snd c) j \<longrightarrow> i = j)"

lemma agrees_open:
  assumes c: "agrees (s, files)" and i: "files i = None" and o: "opn m s = (Inr (), s1)"
  shows "agrees (s1, files(i \<mapsto> m))"
proof (cases "excl m")
  case True
  from c True o have s: "free s" "\<not> free s1" "inv s1"
    by (auto simp: agrees_def dest: open_excl)
  from c s(1) have "\<forall>j. \<not> holds files j" by (simp add: agrees_def)
  with s True show ?thesis by (simp add: agrees_def holds_open_excl)
next
  case False
  from False o have "s1 = s" by (rule open_shared)
  with c False i show ?thesis by (simp add: agrees_def holds_open_shared)
qed

lemma agrees_release:
  assumes c: "agrees (s, files)" and i: "files i = Some m"
  shows "agrees (rls m s, files(i := None))"
proof (cases "excl m")
  case True
  with i have h: "holds files i" by (auto simp: holds_def)
  with c have "\<not> free s" and "inv s" and only: "\<forall>j. holds files j \<longrightarrow> j = i"
    by (auto simp: agrees_def)
  then have "free (rls m s)" "inv (rls m s)" using release_excl True by blast+
  with only show ?thesis by (auto simp: agrees_def holds_release)
next
  case False
  with i have "\<not> holds files i" by (auto simp: holds_def)
  then have "(holds files)(i := False) = holds files" by (auto simp: fun_eq_iff)
  with c False show ?thesis by (simp add: agrees_def holds_release release_shared)
qed

lemma agrees_step: "file_step opn rls c c1 \<Longrightarrow> agrees c \<Longrightarrow> agrees c1"
proof (induction rule: file_step.induct)
  case (file_open files i m s s1)
  then show ?case by (blast intro: agrees_open)
next
  case (file_refused m s er s1 files)
  then show ?case by (auto dest: open_refused)
next
  case (file_release files i m s)
  then show ?case by (blast intro: agrees_release)
qed

lemma reach_agrees: "file_reach opn rls s0 c \<Longrightarrow> inv s0 \<Longrightarrow> free s0 \<Longrightarrow> agrees c"
  by (induction rule: file_reach.induct) (auto simp: agrees_def [of "(s0, Map.empty)"] holds_def agrees_step)

lemma one_exclusive:
  assumes "file_reach opn rls s0 (s, files)" and "inv s0" and "free s0"
    and "files i = Some m" and "files j = Some n" and "excl m" and "excl n"
  shows "i = j"
proof -
  from assms(4-7) have "holds files i" and "holds files j" by (auto simp: holds_def)
  with reach_agrees [OF assms(1-3)] show ?thesis by (simp add: agrees_def)
qed

lemma busy_refused:
  assumes "file_reach opn rls s0 (s, files)" and "inv s0" and "free s0"
    and "files i = Some m" and "excl m" and "excl n"
  shows "\<exists>er. opn n s = (Inl er, s)"
proof -
  have a: "agrees (s, files)" by (rule reach_agrees [OF assms(1-3)])
  obtain r s1 where o: "opn n s = (r, s1)" by (cases "opn n s")
  show ?thesis
  proof (cases r)
    case (Inl er)
    with o show ?thesis by (auto dest: open_refused)
  next
    case (Inr u)
    with o have "opn n s = (Inr (), s1)" by simp
    from open_excl [OF _ assms(6) this] a have "free s" by (simp add: agrees_def)
    with a assms(4,5) show ?thesis by (auto simp: agrees_def holds_def)
  qed
qed

lemma free_when_closed:
  assumes "file_reach opn rls s0 (s, files)" and "inv s0" and "free s0"
    and "\<And>i m. files i = Some m \<Longrightarrow> \<not> excl m"
  shows "free s"
  using reach_agrees [OF assms(1-3)] assms(4) by (auto simp: agrees_def holds_def)

end

end
