(* ===== verification/Irq_Line.thy ===== *)
theory Irq_Line
  imports Kernel
begin

text \<open>
  Interrupt handlers on a shared line, as an interface. The three interrupt handlers of the
  repository are registered with \<open>IRQF_SHARED\<close>: the kernel calls every handler of the line, so
  a handler has to tell from its device whether the interrupt is its own, leave the device
  alone if not, and acknowledge it if so.
\<close>

datatype irqreturn = IRQ_NONE | IRQ_HANDLED

text \<open>The register writes among the calls: value, mapping, offset.\<close>

fun reg_writes :: "kcall list \<Rightarrow> (u32 \<times> addr \<times> nat) list" where
  "reg_writes [] = []"
| "reg_writes (Writel v b off # cs) = (v, b, off) # reg_writes cs"
| "reg_writes (_ # cs) = reg_writes cs"

lemma reg_writes_append [simp]: "reg_writes (xs @ ys) = reg_writes xs @ reg_writes ys"
  by (induction xs rule: reg_writes.induct) auto

text \<open>The line calls the handlers of its devices in order; \<open>h\<close> is what the device answers.\<close>

fun dispatch :: "('d \<Rightarrow> 'h \<Rightarrow> irqreturn \<times> kcall list) \<Rightarrow> ('d \<times> 'h) list \<Rightarrow> irqreturn \<times> kcall list" where
  "dispatch isr [] = (IRQ_NONE, [])"
| "dispatch isr ((d, h) # ds) =
     (let (r, tr) = isr d h; (r1, tr1) = dispatch isr ds
      in (if r = IRQ_HANDLED then IRQ_HANDLED else r1, tr @ tr1))"

text \<open>
  \<open>ours h\<close>: the answers \<open>h\<close> say that this device raised the interrupt; \<open>resp h\<close> is what the
  handler then writes to the device, value and register, in order.
\<close>

locale irq_handler =
  fixes isr :: "'d \<Rightarrow> 'h \<Rightarrow> irqreturn \<times> kcall list"
    and base :: "'d \<Rightarrow> addr"
    and ours :: "'h \<Rightarrow> bool"
    and resp :: "'h \<Rightarrow> (u32 \<times> nat) list"
  assumes isr_handled: "fst (isr d h) = IRQ_HANDLED \<longleftrightarrow> ours h"
    and isr_writes: "reg_writes (snd (isr d h)) =
      (if ours h then map (\<lambda>(v, off). (v, base d, off)) (resp h) else [])"
    and resp_acks: "ours h \<Longrightarrow> resp h \<noteq> []"
begin

lemma line_handled: "fst (dispatch isr ds) = IRQ_HANDLED \<longleftrightarrow> (\<exists>x \<in> set ds. ours (snd x))"
  by (induction ds) (auto simp: case_prod_unfold Let_def isr_handled)

lemma line_writes:
  "reg_writes (snd (dispatch isr ds)) =
     concat (map (\<lambda>(d, h). map (\<lambda>(v, off). (v, base d, off)) (resp h)) (filter (ours \<circ> snd) ds))"
  by (induction ds) (auto simp: case_prod_unfold Let_def isr_writes)

lemma line_quiet:
  "reg_writes (snd (dispatch isr ds)) = [] \<longleftrightarrow> fst (dispatch isr ds) = IRQ_NONE"
proof -
  have "reg_writes (snd (dispatch isr ds)) = [] \<longleftrightarrow> (\<forall>x \<in> set ds. \<not> ours (snd x))"
    by (auto simp: line_writes filter_empty_conv resp_acks)
  then show ?thesis
    using line_handled [of ds] by (cases "fst (dispatch isr ds)") auto
qed

end

end
