(* ===== verification/Phantom.thy ===== *)
theory Phantom
  imports Pci_Driver Exclusive Irq_Line
begin

text \<open>
  The phantom PCI character driver, \<open>10/example/pb173.c\<close>: its table of eight minors, probe
  with its chain of error labels and remove, the module's init and exit, the file operations
  and the interrupt handler.
\<close>

section \<open>State\<close>

text \<open>
  \<open>phantom_devices\<close> is a list of eight bytes. A \<open>phantom_device\<close> record is the allocated
  structure: \<open>self\<close> is its address, \<open>pdev\<close> the PCI device it is the driver data of, and
  \<open>cdev_minor\<close> the minor of the device number in its \<open>cdev\<close>. The \<open>status\<close> word is never
  used by the code beyond the zero that \<open>kzalloc\<close> gives it.
\<close>

definition PHANTOM_MAX_MINORS :: nat where "PHANTOM_MAX_MINORS = 8"
definition PHN_CONT :: nat where "PHN_CONT = 16"
definition PHN_CONTROL :: nat where "PHN_CONTROL = 0x6"
definition PHN_IRQCTL :: nat where "PHN_IRQCTL = 0x4c"
definition PHN_CTL_IRQ :: u32 where "PHN_CTL_IRQ = 0x10"

lemmas phn_consts = PHANTOM_MAX_MINORS_def PHN_CONT_def PHN_CONTROL_def PHN_IRQCTL_def
  PHN_CTL_IRQ_def

record phantom_device =
  opened :: u32
  caddr :: addr
  iaddr :: addr
  status :: u64
  cdev_minor :: nat
  self :: addr
  pdev :: nat

section \<open>Minor allocation\<close>

function phantom_get_free_from :: "byte list \<Rightarrow> nat \<Rightarrow> nat" where
  "phantom_get_free_from phantom_devices i =
     (if i < PHANTOM_MAX_MINORS
      then if phantom_devices ! i = 0 then i else phantom_get_free_from phantom_devices (i + 1)
      else i)"
  by pat_completeness auto
termination
  by (relation "measure (\<lambda>(_, i). PHANTOM_MAX_MINORS - i)") auto

declare phantom_get_free_from.simps [simp del]

definition phantom_get_free :: "byte list \<Rightarrow> nat" where
  "phantom_get_free phantom_devices = phantom_get_free_from phantom_devices 0"

section \<open>Probe\<close>

text \<open>What the kernel answers to the calls of one probe, in the order of the calls.\<close>

record phantom_env =
  e_pdev :: nat
  e_enable :: int
  e_regions :: int
  e_pht :: addr
  e_caddr :: addr
  e_iaddr :: addr
  e_irq :: int
  e_cdev :: int
  e_node :: bool

text \<open>
  The error labels, each falling through to the next: the minor table and the calls made from
  the label to the return.
\<close>

definition err_dis :: "nat \<Rightarrow> byte list \<Rightarrow> byte list \<times> kcall list" where
  "err_dis d devs = (devs, [Pci_disable_device d])"

definition err_null :: "nat \<Rightarrow> nat \<Rightarrow> byte list \<Rightarrow> byte list \<times> kcall list" where
  "err_null d minor devs = err_dis d (devs[minor := 0])"

definition err_reg :: "nat \<Rightarrow> nat \<Rightarrow> byte list \<Rightarrow> byte list \<times> kcall list" where
  "err_reg d minor devs = apsnd ((@) [Pci_release_regions d]) (err_null d minor devs)"

definition err_fr :: "nat \<Rightarrow> nat \<Rightarrow> addr \<Rightarrow> byte list \<Rightarrow> byte list \<times> kcall list" where
  "err_fr d minor pht devs = apsnd ((@) [Kfree pht]) (err_reg d minor devs)"

definition err_unmc :: "nat \<Rightarrow> nat \<Rightarrow> addr \<Rightarrow> addr \<Rightarrow> byte list \<Rightarrow> byte list \<times> kcall list" where
  "err_unmc d minor pht ca devs = apsnd ((@) [Iounmap ca]) (err_fr d minor pht devs)"

definition err_unmi ::
  "nat \<Rightarrow> nat \<Rightarrow> addr \<Rightarrow> addr \<Rightarrow> addr \<Rightarrow> byte list \<Rightarrow> byte list \<times> kcall list" where
  "err_unmi d minor pht ca ia devs = apsnd ((@) [Iounmap ia]) (err_unmc d minor pht ca devs)"

definition err_irq ::
  "nat \<Rightarrow> nat \<Rightarrow> addr \<Rightarrow> addr \<Rightarrow> addr \<Rightarrow> byte list \<Rightarrow> byte list \<times> kcall list" where
  "err_irq d minor pht ca ia devs = apsnd ((@) [Free_irq pht]) (err_unmi d minor pht ca ia devs)"

lemmas err_labels =
  err_dis_def err_null_def err_reg_def err_fr_def err_unmc_def err_unmi_def err_irq_def

definition goto ::
  "kcall list \<Rightarrow> byte list \<times> kcall list \<Rightarrow> errno \<Rightarrow>
   byte list \<times> kcall list \<times> (errno + phantom_device)" where
  "goto tr l r = (fst l, tr @ snd l, Inl r)"

definition phantom_probe ::
  "byte list \<Rightarrow> phantom_env \<Rightarrow> byte list \<times> kcall list \<times> (errno + phantom_device)" where
  "phantom_probe devs0 e =
     (let d = e_pdev e; pht = e_pht e; ca = e_caddr e; ia = e_iaddr e;
          tr1 = [Pci_enable_device d (e_enable e)]
      in if e_enable e \<noteq> 0 then goto tr1 (devs0, []) (EKERNEL (e_enable e)) else
      let minor = phantom_get_free devs0
      in if minor = PHANTOM_MAX_MINORS then goto tr1 (err_dis d devs0) EIO else
      let devs = devs0[minor := 1]; tr2 = tr1 @ [Pci_request_regions d (e_regions e)]
      in if e_regions e \<noteq> 0 then goto tr2 (err_null d minor devs) (EKERNEL (e_regions e)) else
      let tr3 = tr2 @ [Kmalloc pht]
      in if pht = NULL then goto tr3 (err_reg d minor devs) ENOMEM else
      let tr4 = tr3 @ [Ioremap ca]
      in if ca = NULL then goto tr4 (err_fr d minor pht devs) ENOMEM else
      let tr5 = tr4 @ [Ioremap ia]
      in if ia = NULL then goto tr5 (err_unmc d minor pht ca devs) ENOMEM else
      let tr6 = tr5 @ [Writel 0 ca PHN_IRQCTL, Readl ca PHN_IRQCTL, Request_irq pht (e_irq e)]
      in if e_irq e \<noteq> 0 then goto tr6 (err_unmi d minor pht ca ia devs) (EKERNEL (e_irq e)) else
      let tr7 = tr6 @ [Cdev_add minor (e_cdev e)]
      in if e_cdev e \<noteq> 0 then goto tr7 (err_irq d minor pht ca ia devs) (EKERNEL (e_cdev e)) else
      (devs, tr7 @ [Device_create minor (e_node e), Set_drvdata d pht],
       Inr \<lparr>opened = 0, caddr = ca, iaddr = ia, status = 0, cdev_minor = minor,
            self = pht, pdev = d\<rparr>))"

definition phantom_remove :: "byte list \<Rightarrow> phantom_device \<Rightarrow> byte list \<times> kcall list" where
  "phantom_remove devs pht =
     (let minor = cdev_minor pht
      in (devs[minor := 0],
          [Device_destroy minor, Cdev_del minor,
           Writel 0 (caddr pht) PHN_IRQCTL, Readl (caddr pht) PHN_IRQCTL, Free_irq (self pht),
           Iounmap (iaddr pht), Iounmap (caddr pht), Kfree (self pht),
           Pci_release_regions (pdev pht), Pci_disable_device (pdev pht)]))"

section \<open>Minor allocation: the first free slot\<close>

lemma phantom_get_free_from_spec:
  assumes "i \<le> PHANTOM_MAX_MINORS"
  shows "i \<le> phantom_get_free_from devs i \<and> phantom_get_free_from devs i \<le> PHANTOM_MAX_MINORS \<and>
    (\<forall>j. i \<le> j \<and> j < phantom_get_free_from devs i \<longrightarrow> devs ! j \<noteq> 0) \<and>
    (phantom_get_free_from devs i < PHANTOM_MAX_MINORS \<longrightarrow>
       devs ! phantom_get_free_from devs i = 0)"
  using assms
proof (induction devs i rule: phantom_get_free_from.induct)
  case (1 devs i)
  show ?case
  proof (cases "i < PHANTOM_MAX_MINORS \<and> devs ! i \<noteq> 0")
    case True
    then have eq: "phantom_get_free_from devs i = phantom_get_free_from devs (i + 1)"
      by (simp add: phantom_get_free_from.simps [of devs i])
    from True "1.IH" have IH:
      "i + 1 \<le> phantom_get_free_from devs (i + 1)"
      "phantom_get_free_from devs (i + 1) \<le> PHANTOM_MAX_MINORS"
      "\<forall>j. i + 1 \<le> j \<and> j < phantom_get_free_from devs (i + 1) \<longrightarrow> devs ! j \<noteq> 0"
      "phantom_get_free_from devs (i + 1) < PHANTOM_MAX_MINORS \<longrightarrow>
         devs ! phantom_get_free_from devs (i + 1) = 0"
      by auto
    have "devs ! j \<noteq> 0" if "i \<le> j" "j < phantom_get_free_from devs (i + 1)" for j
      using that True IH(3) by (cases "j = i") auto
    with eq IH show ?thesis by auto
  next
    case False
    with "1.prems" show ?thesis by (auto simp: phantom_get_free_from.simps [of devs i])
  qed
qed

lemma phantom_get_free_le: "phantom_get_free devs \<le> PHANTOM_MAX_MINORS"
  using phantom_get_free_from_spec [of 0 devs] by (simp add: phantom_get_free_def)

lemma phantom_get_free_slot:
  "phantom_get_free devs < PHANTOM_MAX_MINORS \<Longrightarrow> devs ! phantom_get_free devs = 0"
  using phantom_get_free_from_spec [of 0 devs] by (simp add: phantom_get_free_def)

lemma phantom_get_free_least: "j < phantom_get_free devs \<Longrightarrow> devs ! j \<noteq> 0"
  using phantom_get_free_from_spec [of 0 devs] by (simp add: phantom_get_free_def)

lemma phantom_get_free_full:
  "phantom_get_free devs = PHANTOM_MAX_MINORS \<longleftrightarrow> (\<forall>j < PHANTOM_MAX_MINORS. devs ! j \<noteq> 0)"
  by (metis le_neq_implies_less order_refl phantom_get_free_least phantom_get_free_le
      phantom_get_free_slot)

section \<open>The resources of a bound device\<close>

text \<open>The device node may be missing: probe reports the failure of \<open>device_create\<close> and goes on.\<close>

definition phantom_res :: "phantom_device \<Rightarrow> kres multiset" where
  "phantom_res d = {#DevEnabled (pdev d), Regions (pdev d), Mem (self d), Mapped (caddr d),
     Mapped (iaddr d), Irq (self d), Chrdev (cdev_minor d)#}"

definition phantom_live :: "phantom_device \<Rightarrow> kres multiset \<Rightarrow> bool" where
  "phantom_live d H \<longleftrightarrow> self d \<noteq> NULL \<and>
     (H = phantom_res d \<or> H = add_mset (Node (cdev_minor d)) (phantom_res d))"

lemma phantom_probe_fail_clean:
  "phantom_probe devs e = (devs1, tr, Inl err) \<Longrightarrow> kres_run tr {#} = Some {#}"
  by (auto simp: phantom_probe_def goto_def err_labels Let_def accounting
      split: if_splits)

lemma phantom_probe_live:
  "phantom_probe devs e = (devs1, tr, Inr d) \<Longrightarrow> \<exists>H. kres_run tr {#} = Some H \<and> phantom_live d H"
  by (auto simp: phantom_probe_def goto_def err_labels Let_def phantom_live_def phantom_res_def
      split: if_splits)

lemma phantom_remove_clean:
  assumes "phantom_live d H"
  shows "kres_run (snd (phantom_remove devs d)) H = Some {#}"
proof -
  let ?R = "phantom_res d" and ?N = "Node (cdev_minor d)"
  from assms have n: "self d \<noteq> NULL" and "H = ?R \<or> H = add_mset ?N ?R"
    by (auto simp: phantom_live_def)
  then have "kres_step (Device_destroy (cdev_minor d)) H = Some ?R"
    by (auto simp: phantom_res_def)
  with n show ?thesis
    by (simp add: phantom_remove_def Let_def phantom_res_def accounting
        add_mset_commute)
qed

section \<open>File operations\<close>

text \<open>
  \<open>intr\<close> is what \<open>mutex_lock_interruptible\<close> returns: 0 with the lock taken, or an error
  because a signal arrived.
\<close>

definition phantom_open ::
  "int \<Rightarrow> phantom_device \<Rightarrow> lockcall list \<times> (errno + unit) \<times> phantom_device" where
  "phantom_open intr dev =
     (if intr \<noteq> 0
      then ([Lock ''phantom_mutex'', Unlock ''phantom_mutex''], Inl ERESTARTSYS, dev)
      else if opened dev \<noteq> 0
      then ([Lock ''phantom_mutex'', Lock ''open_lock'',
             Unlock ''open_lock'', Unlock ''phantom_mutex''], Inl EBUSY, dev)
      else ([Lock ''phantom_mutex'', Lock ''open_lock'',
             Unlock ''open_lock'', Unlock ''phantom_mutex''],
            Inr (), dev\<lparr>opened := opened dev + 1\<rparr>))"

definition phantom_release :: "phantom_device \<Rightarrow> lockcall list \<times> phantom_device" where
  "phantom_release dev = ([Lock ''open_lock'', Unlock ''open_lock''], dev\<lparr>opened := 0\<rparr>)"

text \<open>
  The register number and value come from user memory by a plain \<open>memcpy\<close>: \<open>um a\<close> is the
  byte at a mapped user address. The index is that of a 32-bit register of the input space
  and is not checked.
\<close>

definition phantom_write ::
  "(addr \<Rightarrow> byte option) \<Rightarrow> phantom_device \<Rightarrow> addr \<Rightarrow> u64 \<Rightarrow>
   ((errno + u64) \<times> kcall list) exec" where
  "phantom_write um dev buf cnt =
     (if cnt \<noteq> 8 then Ret (Inl EINVAL, [])
      else case those (map (\<lambda>i. um (buf + of_nat i)) [0..<8]) of
        None \<Rightarrow> Fault
      | Some r \<Rightarrow>
          let reg = of_le32 (take 4 r); val = of_le32 (drop 4 r)
          in Ret (Inr cnt, [Writel val (iaddr dev) (4 * unat reg), Readl (iaddr dev) 0]))"

section \<open>The interrupt handler\<close>

text \<open>
  What the device and the kernel answer: the control register, the second (plain) load of it,
  and \<open>printk_ratelimit\<close>. \<open>iaddr\<close> points to 32-bit registers, so \<open>iaddr + PHN_CONTROL\<close> is at
  byte offset 24.
\<close>

type_synonym phantom_hw = "u32 \<times> u32 \<times> bool"

definition phantom_isr :: "phantom_device \<Rightarrow> phantom_hw \<Rightarrow> irqreturn \<times> kcall list" where
  "phantom_isr dev h =
     (let (ctl, raw, ratelimit) = h; ia = iaddr dev; rd = Readl ia (4 * PHN_CONTROL)
      in if ctl AND PHN_CTL_IRQ = 0 then (IRQ_NONE, [rd])
         else (IRQ_HANDLED,
               [rd, rd] @
               (if push_bit PHN_CONT raw \<noteq> 0 \<and> ratelimit
                then [Printk (str_bytes ''phantom: wrong interrupt'')] else []) @
               [Writel 0 ia 0, Readl ia 0]))"

text \<open>What can run while the device is bound, and the calls it makes.\<close>

datatype phantom_event = Phantom_irq phantom_hw | Phantom_write "addr \<Rightarrow> byte option" addr u64

fun phantom_handle :: "phantom_device \<Rightarrow> phantom_event \<Rightarrow> kcall list" where
  "phantom_handle dev (Phantom_irq h) = snd (phantom_isr dev h)"
| "phantom_handle dev (Phantom_write um buf cnt) =
     (case phantom_write um dev buf cnt of Ret (_, tr) \<Rightarrow> tr | Fault \<Rightarrow> [])"

section \<open>Module init and exit\<close>

text \<open>The answers of \<open>class_create\<close>, \<open>alloc_chrdev_region\<close> and \<open>pci_register_driver\<close> (0: success).\<close>

definition phantom_init :: "int \<Rightarrow> int \<Rightarrow> int \<Rightarrow> kcall list \<times> (errno + unit)" where
  "phantom_init cls chr drv =
     (let err_class = [Class_destroy]; err_unchr = Unregister_chrdev_region # err_class
      in if cls \<noteq> 0 then ([Class_create False], Inl (EKERNEL cls))
         else if chr \<noteq> 0
         then ([Class_create True, Alloc_chrdev_region chr] @ err_class, Inl (EKERNEL chr))
         else if drv \<noteq> 0
         then ([Class_create True, Alloc_chrdev_region 0, Pci_register_driver drv] @ err_unchr,
               Inl (EKERNEL drv))
         else ([Class_create True, Alloc_chrdev_region 0, Pci_register_driver 0], Inr ()))"

definition phantom_exit :: "kcall list" where
  "phantom_exit = [Pci_unregister_driver, Unregister_chrdev_region, Class_destroy]"

lemma phantom_init_fail_clean:
  "phantom_init cls chr drv = (tr, Inl er) \<Longrightarrow> kres_run tr {#} = Some {#}"
  by (auto simp: phantom_init_def Let_def give_back_def split: if_splits)

lemma phantom_init_exit:
  "phantom_init cls chr drv = (tr, Inr ()) \<Longrightarrow> kres_run (tr @ phantom_exit) {#} = Some {#}"
  by (auto simp: phantom_init_def phantom_exit_def Let_def give_back_def split: if_splits)

section \<open>The contracts\<close>

lemma phantom_isr_keeps: "Mapped (iaddr d) \<in># H \<Longrightarrow> kres_run (snd (phantom_isr d h)) H = Some H"
  by (auto simp: phantom_isr_def Let_def split: prod.split)

lemma phantom_write_keeps:
  "Mapped (iaddr d) \<in># H \<Longrightarrow> phantom_write um d buf cnt = Ret (r, tr) \<Longrightarrow> kres_run tr H = Some H"
  by (auto simp: phantom_write_def Let_def split: if_splits option.splits)

lemma phantom_live_mapped: "phantom_live d H \<Longrightarrow> Mapped (iaddr d) \<in># H"
  by (auto simp: phantom_live_def phantom_res_def)

lemma phantom_handle_keeps: "phantom_live d H \<Longrightarrow> kres_run (phantom_handle d ev) H = Some H"
  by (cases ev)
    (auto simp: phantom_isr_keeps phantom_live_mapped split: exec.split
      dest: phantom_write_keeps [OF phantom_live_mapped])

lemma phantom_probe_fail:
  "length devs = PHANTOM_MAX_MINORS \<Longrightarrow> phantom_probe devs e = (devs1, tr, Inl er) \<Longrightarrow> devs1 = devs"
  using phantom_get_free_slot [of devs] phantom_get_free_le [of devs]
  by (auto simp: phantom_probe_def goto_def err_labels Let_def list_update_same_conv
      split: if_splits)

lemma phantom_probe_bound:
  assumes "phantom_probe devs e = (devs1, tr, Inr d)"
  shows "cdev_minor d = phantom_get_free devs" and "phantom_get_free devs < PHANTOM_MAX_MINORS"
    and "devs1 = devs[cdev_minor d := 1]" and "pdev d = e_pdev e" and "opened d = 0"
  using assms phantom_get_free_le [of devs]
  by (auto simp: phantom_probe_def goto_def Let_def split: if_splits)

lemma phantom_remove_undoes:
  assumes "length devs = PHANTOM_MAX_MINORS" and p: "phantom_probe devs e = (devs1, tr, Inr d)"
  shows "fst (phantom_remove devs1 d) = devs"
  using assms(1) phantom_probe_bound [OF p] phantom_get_free_slot [of devs]
  by (simp add: phantom_remove_def Let_def list_update_same_conv)

interpretation phantom: clean_pci_driver phantom_probe phantom_remove "\<lambda>_. phantom_handle" "\<lambda>_. phantom_live"
  "\<lambda>_. True" "\<lambda>devs. length devs = PHANTOM_MAX_MINORS"
  by unfold_locales
    (blast intro: phantom_probe_live phantom_handle_keeps phantom_remove_clean
      phantom_probe_fail phantom_probe_fail_clean phantom_remove_undoes)+

interpretation phantom_files: exclusive_open "\<lambda>intr dev. snd (phantom_open intr dev)"
  "\<lambda>_ dev. snd (phantom_release dev)" "\<lambda>_. True" "\<lambda>dev. opened dev = 0" "\<lambda>dev. opened dev \<le> 1"
  by unfold_locales (auto simp: phantom_open_def phantom_release_def split: if_splits)

abbreviation phantom_raised :: "phantom_hw \<Rightarrow> bool" where
  "phantom_raised h \<equiv> fst h AND PHN_CTL_IRQ \<noteq> 0"

interpretation phantom_irq: irq_handler phantom_isr iaddr phantom_raised "\<lambda>_. [(0, 0)]"
  by unfold_locales (auto simp: phantom_isr_def Let_def split: if_splits)

end
