(* ===== verification/Pci_Bus.thy ===== *)
theory Pci_Bus
  imports Pci_Driver
begin

text \<open>
  Any number of cards bound to one driver at the same time. Each slot of the bus has an account of
  the resources acquired for its card; a call made for one card must be allowed by its own
  account and must not disturb what the other cards hold. The locale \<open>bus_driver\<close> says what a
  driver needs for that, beyond what \<open>leaky_pci_driver\<close> asks for one card at a time.
\<close>

section \<open>What a driver registers\<close>

text \<open>
  The entries of an id table, as they are written; which devices an entry stands for is up to
  the PCI core, an argument of the bus below.
\<close>

datatype pci_device_id =
    PCI_DEVICE u32 u32
  | Pci_id u32 u32 u32 u32 u32 u32
  | Pci_end

record ('st, 'env, 'd) pci_driver_struct =
  drv_name :: string
  id_table :: "pci_device_id list"
  drv_probe :: "'st \<Rightarrow> 'env \<Rightarrow> 'st \<times> kcall list \<times> (errno + 'd)"
  drv_remove :: "'st \<Rightarrow> 'd \<Rightarrow> 'st \<times> kcall list"

section \<open>Accounts side by side\<close>

text \<open>
  A call made for one card disturbs another that holds \<open>G\<close>: it frees the cookie of a callback
  of the other, or adds a character device or a node under the other's number.
\<close>

fun conflicts :: "kcall \<Rightarrow> kres multiset \<Rightarrow> bool" where
  "conflicts (Kfree p) G = (p \<noteq> NULL \<and> (Irq p \<in># G \<or> Armed p \<in># G \<or> Queued p \<in># G))"
| "conflicts (Cdev_add m r) G = (Chrdev m \<in># G)"
| "conflicts (Device_create m created) G = (Node m \<in># G)"
| "conflicts _ G = False"

fun bus_calls ::
  "nat \<Rightarrow> nat \<Rightarrow> kcall list \<Rightarrow> (nat \<Rightarrow> kres multiset) \<Rightarrow> (nat \<Rightarrow> kres multiset) option" where
  "bus_calls n i [] A = Some A"
| "bus_calls n i (c # cs) A =
     (if \<exists>j < n. j \<noteq> i \<and> conflicts c (A j) then None
      else case kres_step c (A i) of None \<Rightarrow> None | Some H \<Rightarrow> bus_calls n i cs (A(i := H)))"

text \<open>The kernel does not hand out memory that is still allocated.\<close>

definition fresh_in :: "kcall list \<Rightarrow> kres multiset \<Rightarrow> bool" where
  "fresh_in cs G = list_all (\<lambda>c. case c of Kmalloc p \<Rightarrow> p = NULL \<or> Mem p \<notin># G | _ \<Rightarrow> True) cs"

definition mem_apart :: "kres multiset \<Rightarrow> kres multiset \<Rightarrow> bool" where
  "mem_apart H G \<longleftrightarrow> (\<forall>p. Mem p \<in># H \<longrightarrow> Mem p \<notin># G)"

lemma conflicts_plus: "conflicts c (G + G1) \<longleftrightarrow> conflicts c G \<or> conflicts c G1"
  by (cases c) auto

lemma conflicts_empty [simp]: "\<not> conflicts c {#}"
  by (cases c) auto

lemma fresh_inD: "fresh_in cs G \<Longrightarrow> Kmalloc p \<in> set cs \<Longrightarrow> p \<noteq> NULL \<Longrightarrow> Mem p \<notin># G"
  by (auto simp: fresh_in_def list_all_iff split: kcall.splits)

lemma fresh_in_plus: "fresh_in cs (G + G1) \<Longrightarrow> fresh_in cs G"
  by (auto simp: fresh_in_def list_all_iff split: kcall.splits)

lemma mem_step: "kres_step c H = Some H1 \<Longrightarrow> Mem p \<in># H1 \<Longrightarrow> Mem p \<in># H \<or> c = Kmalloc p \<and> p \<noteq> NULL"
  by (cases c) (auto simp: accounting split: if_splits dest: in_diffD)

lemma mem_run:
  "kres_run cs H = Some H1 \<Longrightarrow> Mem p \<in># H1 \<Longrightarrow> Mem p \<in># H \<or> Kmalloc p \<in> set cs \<and> p \<noteq> NULL"
proof (induction cs arbitrary: H)
  case Nil
  then show ?case by simp
next
  case (Cons c cs)
  then obtain H2 where "kres_step c H = Some H2" "kres_run cs H2 = Some H1"
    by (auto split: option.splits)
  with Cons mem_step [of c H H2 p] show ?case by auto
qed

lemma mem_apart_run:
  assumes "kres_run cs H = Some H1" and "mem_apart H G" and "fresh_in cs G"
  shows "mem_apart H1 G"
  unfolding mem_apart_def
proof (intro allI impI)
  fix p
  assume "Mem p \<in># H1"
  with mem_run [OF assms(1)] consider "Mem p \<in># H" | "Kmalloc p \<in> set cs" "p \<noteq> NULL" by blast
  then show "Mem p \<notin># G"
    using assms(2) fresh_inD [OF assms(3)] by cases (simp_all add: mem_apart_def)
qed

lemma mem_apart_sym: "mem_apart H G \<Longrightarrow> mem_apart G H"
  by (auto simp: mem_apart_def)

lemma bus_calls_run:
  "kres_run cs (A i) = Some H \<Longrightarrow> \<forall>c \<in> set cs. \<forall>j < n. j \<noteq> i \<longrightarrow> \<not> conflicts c (A j) \<Longrightarrow>
   bus_calls n i cs A = Some (A(i := H))"
proof (induction cs arbitrary: A)
  case Nil
  then show ?case by auto
next
  case (Cons c cs)
  then obtain H1 where H1: "kres_step c (A i) = Some H1" "kres_run cs H1 = Some H"
    by (auto split: option.splits)
  let ?A = "A(i := H1)"
  have "kres_run cs (?A i) = Some H" "\<forall>c \<in> set cs. \<forall>j < n. j \<noteq> i \<longrightarrow> \<not> conflicts c (?A j)"
    using H1 Cons.prems by simp_all
  from Cons.IH [OF this] have "bus_calls n i cs ?A = Some (A(i := H))" by (simp only: fun_upd_upd)
  moreover have "\<not> (\<exists>j < n. j \<noteq> i \<and> conflicts c (A j))" using Cons.prems by auto
  ultimately show ?case by (simp only: bus_calls.simps if_False option.case H1)
qed

section \<open>The bus\<close>

record ('st, 'd) bus =
  drv_state :: 'st
  at_slot :: "nat \<Rightarrow> 'd option"
  account :: "nat \<Rightarrow> kres multiset"

datatype ('env, 'ev) bus_event = Plug 'env | Callback nat 'ev | Unplug nat

text \<open>
  What an event makes the driver do: for which slot, the calls, the driver's state and the bound
  devices afterwards. \<open>slot e\<close> is the slot of the card a probe with the answers \<open>e\<close> is for.
\<close>

fun bus_effect ::
  "('st, 'env, 'd) pci_driver_struct \<Rightarrow> ('st \<Rightarrow> 'd \<Rightarrow> 'ev \<Rightarrow> kcall list) \<Rightarrow> ('env \<Rightarrow> nat) \<Rightarrow>
   ('env, 'ev) bus_event \<Rightarrow> ('st, 'd) bus \<Rightarrow> nat \<times> kcall list \<times> 'st \<times> (nat \<Rightarrow> 'd option)" where
  "bus_effect D handle slot (Plug e) s =
     (case drv_probe D (drv_state s) e of
        (st1, tr, Inl _) \<Rightarrow> (slot e, tr, st1, at_slot s)
      | (st1, tr, Inr d) \<Rightarrow> (slot e, tr, st1, (at_slot s)(slot e := Some d)))"
| "bus_effect D handle slot (Callback i ev) s =
     (case at_slot s i of
        None \<Rightarrow> (i, [], drv_state s, at_slot s)
      | Some d \<Rightarrow> (i, handle (drv_state s) d ev, drv_state s, at_slot s))"
| "bus_effect D handle slot (Unplug i) s =
     (case at_slot s i of
        None \<Rightarrow> (i, [], drv_state s, at_slot s)
      | Some d \<Rightarrow> (case drv_remove D (drv_state s) d of
          (st1, tr) \<Rightarrow> (i, tr, st1, (at_slot s)(i := None))))"

text \<open>\<open>None\<close> if the driver makes a call it must not make.\<close>

definition bus_step ::
  "('st, 'env, 'd) pci_driver_struct \<Rightarrow> ('st \<Rightarrow> 'd \<Rightarrow> 'ev \<Rightarrow> kcall list) \<Rightarrow> ('env \<Rightarrow> nat) \<Rightarrow> nat \<Rightarrow>
   ('env, 'ev) bus_event \<Rightarrow> ('st, 'd) bus \<Rightarrow> ('st, 'd) bus option" where
  "bus_step D handle slot n ev s =
     (case bus_effect D handle slot ev s of (i, tr, st1, b) \<Rightarrow>
        map_option (\<lambda>A. \<lparr>drv_state = st1, at_slot = b, account = A\<rparr>) (bus_calls n i tr (account s)))"

fun bus_run ::
  "('st, 'env, 'd) pci_driver_struct \<Rightarrow> ('st \<Rightarrow> 'd \<Rightarrow> 'ev \<Rightarrow> kcall list) \<Rightarrow> ('env \<Rightarrow> nat) \<Rightarrow> nat \<Rightarrow>
   ('env, 'ev) bus_event list \<Rightarrow> ('st, 'd) bus \<Rightarrow> ('st, 'd) bus option" where
  "bus_run D handle slot n [] s = Some s"
| "bus_run D handle slot n (ev # evs) s =
     (case bus_step D handle slot n ev s of None \<Rightarrow> None | Some s1 \<Rightarrow> bus_run D handle slot n evs s1)"

text \<open>
  What the kernel does: the core probes a device that matches an entry of the id table, is not bound
  and answers as \<open>ok\<close> says; only a bound device calls back or is removed; memory is fresh.
\<close>

fun event_ok ::
  "(pci_device_id list \<Rightarrow> nat \<Rightarrow> bool) \<Rightarrow> ('st, 'env, 'd) pci_driver_struct \<Rightarrow> ('env \<Rightarrow> nat) \<Rightarrow>
   ('env \<Rightarrow> bool) \<Rightarrow> nat \<Rightarrow> ('env, 'ev) bus_event \<Rightarrow> ('st, 'd) bus \<Rightarrow> bool" where
  "event_ok matches D slot ok n (Plug e) s =
     (slot e < n \<and> matches (id_table D) (slot e) \<and> at_slot s (slot e) = None \<and> ok e)"
| "event_ok matches D slot ok n (Callback i ev) s = (i < n \<and> at_slot s i \<noteq> None)"
| "event_ok matches D slot ok n (Unplug i) s = (i < n \<and> at_slot s i \<noteq> None)"

fun bus_ok ::
  "(pci_device_id list \<Rightarrow> nat \<Rightarrow> bool) \<Rightarrow> ('st, 'env, 'd) pci_driver_struct \<Rightarrow>
   ('st \<Rightarrow> 'd \<Rightarrow> 'ev \<Rightarrow> kcall list) \<Rightarrow> ('env \<Rightarrow> nat) \<Rightarrow> ('env \<Rightarrow> bool) \<Rightarrow> nat \<Rightarrow>
   ('env, 'ev) bus_event list \<Rightarrow> ('st, 'd) bus \<Rightarrow> bool" where
  "bus_ok matches D handle slot ok n [] s = True"
| "bus_ok matches D handle slot ok n (ev # evs) s =
     (event_ok matches D slot ok n ev s \<and>
      (\<forall>j < n. fresh_in (fst (snd (bus_effect D handle slot ev s))) (account s j)) \<and>
      (case bus_step D handle slot n ev s of None \<Rightarrow> True
       | Some s1 \<Rightarrow> bus_ok matches D handle slot ok n evs s1))"

definition empty_bus :: "'st \<Rightarrow> ('st, 'd) bus" where
  "empty_bus st = \<lparr>drv_state = st, at_slot = (\<lambda>_. None), account = (\<lambda>_. {#})\<rparr>"

text \<open>The probes of a history for one slot.\<close>

definition plugs :: "('env \<Rightarrow> nat) \<Rightarrow> nat \<Rightarrow> ('env, 'ev) bus_event list \<Rightarrow> 'env list" where
  "plugs slot i evs = [e. Plug e \<leftarrow> evs, slot e = i]"

lemma plugs_simps [simp]:
  "plugs slot i [] = []" "plugs slot i (Callback k x # evs) = plugs slot i evs"
  "plugs slot i (Unplug k # evs) = plugs slot i evs"
  "plugs slot i (Plug e # evs) = (if slot e = i then [e] else []) @ plugs slot i evs"
  by (simp_all add: plugs_def)

section \<open>The contract\<close>

text \<open>
  \<open>inv\<close> relates the driver's own state to the bound devices. What a card may hold does not depend
  on the probes and removals of others, and none of the driver's calls for one card disturbs what
  another holds.
\<close>

locale bus_driver = leaky_pci_driver "drv_probe D" "drv_remove D" handle live ok lost
  for D :: "('st, 'env, 'd) pci_driver_struct" and handle :: "'st \<Rightarrow> 'd \<Rightarrow> 'ev \<Rightarrow> kcall list"
    and live :: "'st \<Rightarrow> 'd \<Rightarrow> kres multiset \<Rightarrow> bool" and ok :: "'env \<Rightarrow> bool"
    and lost :: "'env \<Rightarrow> kres multiset" +
  fixes slot :: "'env \<Rightarrow> nat" and inv :: "'st \<Rightarrow> (nat \<Rightarrow> 'd option) \<Rightarrow> bool"
  assumes live_probe: "live st d H \<Longrightarrow> drv_probe D st e = (st1, tr, r) \<Longrightarrow> live st1 d H"
    and live_remove: "live st d H \<Longrightarrow> live (fst (drv_remove D st d1)) d H"
    and inv_bind: "inv st b \<Longrightarrow> ok e \<Longrightarrow> b (slot e) = None \<Longrightarrow>
      drv_probe D st e = (st1, tr, Inr d) \<Longrightarrow> inv st1 (b(slot e := Some d))"
    and inv_fail: "inv st b \<Longrightarrow> ok e \<Longrightarrow> drv_probe D st e = (st1, tr, Inl er) \<Longrightarrow> inv st1 b"
    and inv_unbind: "inv st b \<Longrightarrow> b i = Some d \<Longrightarrow> inv (fst (drv_remove D st d)) (b(i := None))"
    and probe_apart: "inv st b \<Longrightarrow> ok e \<Longrightarrow> b (slot e) = None \<Longrightarrow> b j = Some d \<Longrightarrow> live st d G \<Longrightarrow>
      drv_probe D st e = (st1, tr, r) \<Longrightarrow> fresh_in tr G \<Longrightarrow> c \<in> set tr \<Longrightarrow> \<not> conflicts c G"
    and handle_apart: "inv st b \<Longrightarrow> b i = Some d \<Longrightarrow> b j = Some d1 \<Longrightarrow> i \<noteq> j \<Longrightarrow> live st d H \<Longrightarrow>
      live st d1 G \<Longrightarrow> mem_apart H G \<Longrightarrow> c \<in> set (handle st d ev) \<Longrightarrow> \<not> conflicts c G"
    and remove_apart: "inv st b \<Longrightarrow> b i = Some d \<Longrightarrow> b j = Some d1 \<Longrightarrow> i \<noteq> j \<Longrightarrow> live st d H \<Longrightarrow>
      live st d1 G \<Longrightarrow> mem_apart H G \<Longrightarrow> c \<in> set (snd (drv_remove D st d)) \<Longrightarrow> \<not> conflicts c G"
    and lost_apart: "ok e \<Longrightarrow> \<not> conflicts c (lost e)"
begin

text \<open>\<open>L i\<close> is what the probes for slot \<open>i\<close> have lost so far.\<close>

definition bus_inv :: "nat \<Rightarrow> (nat \<Rightarrow> kres multiset) \<Rightarrow> ('st, 'd) bus \<Rightarrow> bool" where
  "bus_inv n L s \<longleftrightarrow> inv (drv_state s) (at_slot s) \<and>
     (\<forall>i. inert (L i) \<and> (\<forall>c. \<not> conflicts c (L i))) \<and>
     (\<forall>i < n. \<exists>H. account s i = H + L i \<and>
        (case at_slot s i of None \<Rightarrow> H = {#} | Some d \<Rightarrow> live (drv_state s) d H)) \<and>
     (\<forall>i < n. \<forall>j < n. i \<noteq> j \<longrightarrow> mem_apart (account s i) (account s j))"

fun add_lost :: "('env, 'ev) bus_event \<Rightarrow> (nat \<Rightarrow> kres multiset) \<Rightarrow> nat \<Rightarrow> kres multiset" where
  "add_lost (Plug e) L = L(slot e := L (slot e) + lost e)"
| "add_lost _ L = L"

lemma inert_plus: "inert G \<Longrightarrow> inert G1 \<Longrightarrow> inert (G + G1)"
  by (auto simp: inert_def)

text \<open>A step whose calls suit the slot's own resources and disturb no other bound card.\<close>

lemma step_inv:
  assumes s: "bus_inv n L s" and i: "i < n"
    and eff: "bus_effect D handle slot ev s = (i, tr, st1, b)"
    and fr: "\<forall>j < n. fresh_in tr (account s j)"
    and own: "account s i = H + L i" "kres_run tr H = Some H1"
    and new: "inv st1 b" "\<forall>j. j \<noteq> i \<longrightarrow> b j = at_slot s j"
      "\<forall>d G. live (drv_state s) d G \<longrightarrow> live st1 d G"
      "\<exists>H2. H1 = H2 + M \<and> (case b i of None \<Rightarrow> H2 = {#} | Some d \<Rightarrow> live st1 d H2)"
    and M: "inert M" "\<forall>c. \<not> conflicts c M"
    and apart: "\<And>j d G c. j < n \<Longrightarrow> j \<noteq> i \<Longrightarrow> at_slot s j = Some d \<Longrightarrow> live (drv_state s) d G \<Longrightarrow>
      account s j = G + L j \<Longrightarrow> c \<in> set tr \<Longrightarrow> \<not> conflicts c G"
  shows "\<exists>s1. bus_step D handle slot n ev s = Some s1 \<and> bus_inv n (L(i := L i + M)) s1"
proof -
  let ?A = "account s" and ?s = "\<lparr>drv_state = st1, at_slot = b, account = (account s)(i := H1 + L i)\<rparr>"
  have L: "inert (L j)" "\<not> conflicts c (L j)" for j c using s by (auto simp: bus_inv_def)
  from s have acct: "\<exists>G. ?A j = G + L j \<and>
      (case at_slot s j of None \<Rightarrow> G = {#} | Some d \<Rightarrow> live (drv_state s) d G)" if "j < n" for j
    using that by (simp add: bus_inv_def)
  have "\<not> conflicts c (?A j)" if "c \<in> set tr" "j < n" "j \<noteq> i" for c j
    using acct [OF that(2)] apart [OF that(2,3) _ _ _ that(1)] L(2)
    by (auto simp: conflicts_plus split: option.splits)
  moreover have run: "kres_run tr (?A i) = Some (H1 + L i)"
    using kres_run_frame [OF L(1) own(2)] own(1) by simp
  ultimately have "bus_calls n i tr ?A = Some (?A(i := H1 + L i))"
    by (intro bus_calls_run) auto
  then have "bus_step D handle slot n ev s = Some ?s" by (simp add: bus_step_def eff)
  moreover have "bus_inv n (L(i := L i + M)) ?s"
    unfolding bus_inv_def
  proof (intro conjI allI impI)
    show "inv (drv_state ?s) (at_slot ?s)" using new(1) by simp
    show "inert ((L(i := L i + M)) j)" for j using L M by (simp add: inert_plus)
    show "\<not> conflicts c ((L(i := L i + M)) j)" for j c using L M by (simp add: conflicts_plus)
    show "\<exists>H. account ?s j = H + (L(i := L i + M)) j \<and>
        (case at_slot ?s j of None \<Rightarrow> H = {#} | Some d \<Rightarrow> live (drv_state ?s) d H)" if "j < n" for j
    proof (cases "j = i")
      case True
      with new(4) show ?thesis by (auto simp: ac_simps split: option.splits)
    next
      case False
      with acct [OF that] new(2,3) show ?thesis by (auto split: option.splits)
    qed
    have "mem_apart (H1 + L i) (?A j)" if "j < n" "j \<noteq> i" for j
      using mem_apart_run [OF run] s fr i that by (auto simp: bus_inv_def)
    with s show "mem_apart (account ?s j) (account ?s k)" if "j < n" "k < n" "j \<noteq> k" for j k
      using that mem_apart_sym by (auto simp: bus_inv_def)
  qed
  ultimately show ?thesis by blast
qed

lemma plug_step:
  assumes s: "bus_inv n L s" and ok: "event_ok matches D slot ok n (Plug e) s"
    and fr: "\<forall>j < n. fresh_in (fst (snd (bus_effect D handle slot (Plug e) s))) (account s j)"
  shows "\<exists>s1. bus_step D handle slot n (Plug e) s = Some s1 \<and> bus_inv n (add_lost (Plug e) L) s1"
proof -
  let ?i = "slot e" and ?st = "drv_state s"
  from ok have i: "?i < n" "at_slot s ?i = None" "ok e" by simp_all
  obtain st1 tr r where p: "drv_probe D ?st e = (st1, tr, r)" by (cases "drv_probe D ?st e") auto
  let ?b = "case r of Inl _ \<Rightarrow> at_slot s | Inr d \<Rightarrow> (at_slot s)(?i := Some d)"
  have eff: "bus_effect D handle slot (Plug e) s = (?i, tr, st1, ?b)"
    using p by (simp split: sum.split)
  from s have inv: "inv ?st (at_slot s)" by (simp add: bus_inv_def)
  have own: "account s ?i = {#} + L ?i" using s i by (auto simp: bus_inv_def)
  have fr1: "fresh_in tr (account s j)" if "j < n" for j using fr eff that by simp
  have "\<not> conflicts c G"
    if "j < n" "j \<noteq> ?i" "at_slot s j = Some d" "live ?st d G" "account s j = G + L j" "c \<in> set tr"
    for j d G c
    using probe_apart [OF inv i(3,2) that(3,4) p _ that(6)] fr1 [OF that(1)] that(5)
    by (simp add: fresh_in_plus)
  moreover have "inv st1 ?b"
    using inv_fail [OF inv i(3)] inv_bind [OF inv i(3,2)] p by (cases r) auto
  moreover have "\<exists>H1. kres_run tr {#} = Some H1 \<and> (\<exists>H2. H1 = H2 + lost e \<and>
      (case ?b ?i of None \<Rightarrow> H2 = {#} | Some d \<Rightarrow> live st1 d H2))"
    using probe_lost [OF i(3)] probe_live [OF i(3)] bound_lost [OF i(3)] p i(2)
    by (cases r) fastforce+
  then obtain H1 where "kres_run tr {#} = Some H1" "\<exists>H2. H1 = H2 + lost e \<and>
      (case ?b ?i of None \<Rightarrow> H2 = {#} | Some d \<Rightarrow> live st1 d H2)" by blast
  ultimately show ?thesis
    using step_inv [OF s i(1) eff _ own, of H1 "lost e"] fr1 p live_probe lost_inert [OF i(3)]
      lost_apart [OF i(3)] by (auto split: sum.split)
qed

lemma bound_account:
  assumes "bus_inv n L s" and "i < n" and "at_slot s i = Some d"
  obtains H where "account s i = H + L i" and "live (drv_state s) d H"
  using assms by (auto simp: bus_inv_def)

lemma mem_apart_part: "mem_apart (H + H1) (G + G1) \<Longrightarrow> mem_apart H G"
  by (auto simp: mem_apart_def)

lemma callback_step:
  assumes s: "bus_inv n L s" and ok: "event_ok matches D slot ok n (Callback i ev) s"
    and fr: "\<forall>j < n. fresh_in (fst (snd (bus_effect D handle slot (Callback i ev) s))) (account s j)"
  shows "\<exists>s1. bus_step D handle slot n (Callback i ev) s = Some s1 \<and> bus_inv n L s1"
proof -
  let ?st = "drv_state s"
  from ok obtain d where i: "i < n" "at_slot s i = Some d" by auto
  obtain H where H: "account s i = H + L i" "live ?st d H" using bound_account [OF s i] .
  obtain H1 where H1: "kres_run (handle ?st d ev) H = Some H1" "live ?st d H1"
    using handle_live [OF H(2)] by blast
  have eff: "bus_effect D handle slot (Callback i ev) s = (i, handle ?st d ev, ?st, at_slot s)"
    using i by simp
  from s have inv: "inv ?st (at_slot s)" by (simp add: bus_inv_def)
  have "\<not> conflicts c G"
    if "j < n" "j \<noteq> i" "at_slot s j = Some d1" "live ?st d1 G" "account s j = G + L j"
      "c \<in> set (handle ?st d ev)" for j d1 G c
  proof -
    have "mem_apart (H + L i) (G + L j)" using s i(1) that by (auto simp: bus_inv_def simp flip: H(1) that(5))
    with handle_apart [OF inv i(2) that(3) _ H(2) that(4) _ that(6)] that(2) show ?thesis
      using mem_apart_part by metis
  qed
  with step_inv [OF s i(1) eff _ H(1) H1(1) inv, of "{#}"] fr eff H1(2) i(2) show ?thesis
    by (simp add: inert_def)
qed

lemma unplug_step:
  assumes s: "bus_inv n L s" and ok: "event_ok matches D slot ok n (Unplug i) s"
    and fr: "\<forall>j < n. fresh_in (fst (snd (bus_effect D handle slot (Unplug i) s))) (account s j)"
  shows "\<exists>s1. bus_step D handle slot n (Unplug i) s = Some s1 \<and> bus_inv n L s1"
proof -
  let ?st = "drv_state s"
  from ok obtain d where i: "i < n" "at_slot s i = Some d" by auto
  obtain st1 tr where r: "drv_remove D ?st d = (st1, tr)" by (cases "drv_remove D ?st d")
  obtain H where H: "account s i = H + L i" "live ?st d H" using bound_account [OF s i] .
  have run: "kres_run tr H = Some {#}" using remove_clean [OF H(2)] r by simp
  have eff: "bus_effect D handle slot (Unplug i) s = (i, tr, st1, (at_slot s)(i := None))"
    using i r by simp
  from s have inv: "inv ?st (at_slot s)" by (simp add: bus_inv_def)
  have "\<not> conflicts c G"
    if "j < n" "j \<noteq> i" "at_slot s j = Some d1" "live ?st d1 G" "account s j = G + L j" "c \<in> set tr"
    for j d1 G c
  proof -
    have "mem_apart (H + L i) (G + L j)" using s i(1) that by (auto simp: bus_inv_def simp flip: H(1) that(5))
    with remove_apart [OF inv i(2) that(3) _ H(2) that(4)] that(2,6) r show ?thesis
      using mem_apart_part by (metis snd_conv)
  qed
  moreover have "\<forall>d1 G. live ?st d1 G \<longrightarrow> live st1 d1 G"
    using live_remove [of ?st _ _ d] r by simp
  ultimately show ?thesis
    using step_inv [OF s i(1) eff _ H(1) run, of "{#}"] fr eff inv_unbind [OF inv i(2)] r
    by (simp add: inert_def)
qed

lemma bus_step_inv:
  assumes "bus_inv n L s" and "event_ok matches D slot ok n ev s"
    and "\<forall>j < n. fresh_in (fst (snd (bus_effect D handle slot ev s))) (account s j)"
  shows "\<exists>s1. bus_step D handle slot n ev s = Some s1 \<and> bus_inv n (add_lost ev L) s1"
  using assms plug_step callback_step unplug_step by (cases ev) simp_all

text \<open>Every history the kernel can produce is allowed, and the accounts are as they should be.\<close>

lemma bus_run_inv:
  assumes "bus_inv n L s" and "bus_ok matches D handle slot ok n evs s"
  shows "\<exists>s1. bus_run D handle slot n evs s = Some s1 \<and>
    bus_inv n (\<lambda>i. L i + (\<Sum>e \<leftarrow> plugs slot i evs. lost e)) s1"
  using assms
proof (induction evs arbitrary: L s)
  case Nil
  then show ?case by simp
next
  case (Cons ev evs)
  from Cons.prems(2) have "event_ok matches D slot ok n ev s"
    and "\<forall>j < n. fresh_in (fst (snd (bus_effect D handle slot ev s))) (account s j)" by simp_all
  from bus_step_inv [OF Cons.prems(1) this] obtain s1
    where s1: "bus_step D handle slot n ev s = Some s1" "bus_inv n (add_lost ev L) s1" by blast
  have "(\<lambda>i. add_lost ev L i + (\<Sum>e \<leftarrow> plugs slot i evs. lost e)) =
      (\<lambda>i. L i + (\<Sum>e \<leftarrow> plugs slot i (ev # evs). lost e))"
    by (cases ev) (auto simp: fun_eq_iff ac_simps)
  with Cons.IH [OF s1(2)] Cons.prems(2) s1(1) show ?case by simp
qed

lemma bus_accounts:
  assumes "inv st (\<lambda>_. None)" and "bus_ok matches D handle slot ok n evs (empty_bus st)"
  shows "\<exists>s. bus_run D handle slot n evs (empty_bus st) = Some s \<and> inv (drv_state s) (at_slot s) \<and>
    (\<forall>i < n. at_slot s i = None \<longrightarrow> account s i = (\<Sum>e \<leftarrow> plugs slot i evs. lost e))"
proof -
  have "bus_inv n (\<lambda>_. {#}) (empty_bus st)"
    using assms(1) by (simp add: bus_inv_def empty_bus_def inert_def mem_apart_def)
  from bus_run_inv [OF this assms(2)] obtain s where s: "bus_run D handle slot n evs (empty_bus st) = Some s"
    "bus_inv n (\<lambda>i. {#} + (\<Sum>e \<leftarrow> plugs slot i evs. lost e)) s" by blast
  then show ?thesis by (auto simp: bus_inv_def)
qed

end

section \<open>Running a bus of two slots\<close>

lemma two_slots:
  "(\<forall>j < 2. P j) \<longleftrightarrow> P 0 \<and> P (1 :: nat)" "(\<exists>j < 2. P j) \<longleftrightarrow> P 0 \<or> P (1 :: nat)"
  by (auto simp: less_2_cases_iff)

lemmas bus_eval = bus_step_def empty_bus_def fresh_in_def two_slots

end
