(* ===== verification/Phantom_System.thy ===== *)
theory Phantom_System
  imports Phantom Pci_Bus
begin

text \<open>
  All phantom devices of a machine together: the shared table of minors and the devices bound
  at a moment, as a transition system whose steps are the probes and removals the PCI core
  makes, in any order; and the properties of the phantom driver.
\<close>

section \<open>Devices coming and going\<close>

type_synonym phantom_sys = "byte list \<times> (nat \<rightharpoonup> phantom_device)"

inductive phantom_step :: "phantom_sys \<Rightarrow> phantom_sys \<Rightarrow> bool" where
  bind: "bound (e_pdev e) = None \<Longrightarrow> phantom_probe devs e = (devs1, tr, Inr d) \<Longrightarrow>
    phantom_step (devs, bound) (devs1, bound(e_pdev e \<mapsto> d))"
| bind_fails: "phantom_probe devs e = (devs1, tr, Inl er) \<Longrightarrow>
    phantom_step (devs, bound) (devs1, bound)"
| unbind: "bound p = Some d \<Longrightarrow> phantom_remove devs d = (devs1, tr) \<Longrightarrow>
    phantom_step (devs, bound) (devs1, bound(p := None))"

inductive phantom_reach :: "phantom_sys \<Rightarrow> bool" where
  loaded: "phantom_reach (replicate PHANTOM_MAX_MINORS 0, Map.empty)"
| step: "phantom_reach c \<Longrightarrow> phantom_step c c1 \<Longrightarrow> phantom_reach c1"

inductive_simps phantom_step_simps: "phantom_step (devs, bound) (devs1, bound1)"

text \<open>A slot of the table is taken exactly while a bound device has that minor.\<close>

definition minor_in_use :: "(nat \<rightharpoonup> phantom_device) \<Rightarrow> nat \<Rightarrow> bool" where
  "minor_in_use bound i \<longleftrightarrow> (\<exists>p d. bound p = Some d \<and> cdev_minor d = i)"

definition phantom_inv :: "phantom_sys \<Rightarrow> bool" where
  "phantom_inv c \<longleftrightarrow> length (fst c) = PHANTOM_MAX_MINORS \<and>
     (\<forall>i < PHANTOM_MAX_MINORS. fst c ! i = (if minor_in_use (snd c) i then 1 else 0)) \<and>
     (\<forall>p d. snd c p = Some d \<longrightarrow> cdev_minor d < PHANTOM_MAX_MINORS) \<and>
     (\<forall>p q d d1. snd c p = Some d \<longrightarrow> snd c q = Some d1 \<longrightarrow>
        cdev_minor d = cdev_minor d1 \<longrightarrow> p = q)"

lemma minor_in_use_bind:
  "bound p = None \<Longrightarrow> minor_in_use (bound(p \<mapsto> d)) i \<longleftrightarrow> i = cdev_minor d \<or> minor_in_use bound i"
  unfolding minor_in_use_def by (metis fun_upd_apply option.distinct(1) option.inject)

lemma minor_in_use_unbind:
  assumes "phantom_inv (devs, bound)" and "bound p = Some d"
  shows "minor_in_use (bound(p := None)) i \<longleftrightarrow> i \<noteq> cdev_minor d \<and> minor_in_use bound i"
proof
  assume "minor_in_use (bound(p := None)) i"
  then obtain q d1 where q: "q \<noteq> p" "bound q = Some d1" "cdev_minor d1 = i"
    by (auto simp: minor_in_use_def split: if_splits)
  with assms have "cdev_minor d1 \<noteq> cdev_minor d" by (auto simp: phantom_inv_def)
  with q show "i \<noteq> cdev_minor d \<and> minor_in_use bound i" by (auto simp: minor_in_use_def)
next
  assume "i \<noteq> cdev_minor d \<and> minor_in_use bound i"
  with assms(2) show "minor_in_use (bound(p := None)) i"
    unfolding minor_in_use_def by (metis fun_upd_other option.inject)
qed

lemma phantom_inv_bind:
  assumes inv: "phantom_inv (devs, bound)" and new: "bound (e_pdev e) = None"
    and p: "phantom_probe devs e = (devs1, tr, Inr d)"
  shows "phantom_inv (devs1, bound(e_pdev e \<mapsto> d))"
proof -
  note b = phantom_probe_bound [OF p]
  from b(1,2) inv have "\<not> minor_in_use bound (cdev_minor d)"
    using phantom_get_free_slot [of devs] by (auto simp: phantom_inv_def split: if_splits)
  then have other: "\<And>q d1. bound q = Some d1 \<Longrightarrow> cdev_minor d1 \<noteq> cdev_minor d"
    by (auto simp: minor_in_use_def)
  let ?b = "bound(e_pdev e \<mapsto> d)"
  from inv have inj: "\<And>q r d1 d2. bound q = Some d1 \<Longrightarrow> bound r = Some d2 \<Longrightarrow>
      cdev_minor d1 = cdev_minor d2 \<Longrightarrow> q = r" by (auto simp: phantom_inv_def)
  have "q = r" if "?b q = Some d1" "?b r = Some d2" "cdev_minor d1 = cdev_minor d2" for q r d1 d2
    using that other [of q d1] other [of r d2] inj [of q d1 r d2]
    by (cases "q = e_pdev e"; cases "r = e_pdev e") simp_all
  moreover have "\<forall>i < PHANTOM_MAX_MINORS. devs1 ! i = (if minor_in_use ?b i then 1 else 0)"
    using inv b new by (simp add: phantom_inv_def minor_in_use_bind nth_list_update)
  moreover have "cdev_minor d1 < PHANTOM_MAX_MINORS" if "?b q = Some d1" for q d1
    using that inv b by (auto simp: phantom_inv_def split: if_splits)
  moreover have "length devs1 = PHANTOM_MAX_MINORS"
    using inv b by (simp add: phantom_inv_def)
  ultimately show ?thesis unfolding phantom_inv_def fst_conv snd_conv by blast
qed

lemma phantom_inv_unbind:
  assumes inv: "phantom_inv (devs, bound)" and p: "bound p = Some d"
    and r: "phantom_remove devs d = (devs1, tr)"
  shows "phantom_inv (devs1, bound(p := None))"
proof -
  from r have "devs1 = devs[cdev_minor d := 0]" by (simp add: phantom_remove_def Let_def)
  moreover from inv p have "cdev_minor d < PHANTOM_MAX_MINORS" by (simp add: phantom_inv_def)
  moreover note minor_in_use_unbind [OF inv p]
  ultimately show ?thesis
    using inv by (auto simp: phantom_inv_def nth_list_update)
qed

lemma phantom_step_inv: "phantom_step c c1 \<Longrightarrow> phantom_inv c \<Longrightarrow> phantom_inv c1"
proof (induction rule: phantom_step.induct)
  case (bind bound e devs devs1 tr d)
  then show ?case by (blast intro: phantom_inv_bind)
next
  case (bind_fails devs e devs1 tr er bound)
  then have "devs1 = devs" by (auto simp: phantom_inv_def dest: phantom_probe_fail)
  with bind_fails show ?case by simp
next
  case (unbind bound p d devs devs1 tr)
  then show ?case by (blast intro: phantom_inv_unbind)
qed

lemma phantom_reach_inv: "phantom_reach c \<Longrightarrow> phantom_inv c"
proof (induction rule: phantom_reach.induct)
  case loaded
  show ?case by (simp add: phantom_inv_def minor_in_use_def)
next
  case (step c c1)
  then show ?case by (blast intro: phantom_step_inv)
qed

text \<open>A machine that answers every call of a probe with success.\<close>

definition phantom_good_env :: "nat \<Rightarrow> phantom_env" where
  "phantom_good_env d = \<lparr>e_pdev = d, e_enable = 0, e_regions = 0, e_pht = 0x1000,
     e_caddr = 0x2000, e_iaddr = 0x3000, e_irq = 0, e_cdev = 0, e_node = True\<rparr>"

lemma phantom_good_probe:
  "phantom_probe (0 # devs) (phantom_good_env p) =
    (1 # devs,
     [Pci_enable_device p 0, Pci_request_regions p 0, Kmalloc 0x1000, Ioremap 0x2000,
      Ioremap 0x3000, Writel 0 0x2000 76, Readl 0x2000 76, Request_irq 0x1000 0, Cdev_add 0 0,
      Device_create 0 True, Set_drvdata p 0x1000],
     Inr \<lparr>opened = 0, caddr = 0x2000, iaddr = 0x3000, status = 0, cdev_minor = 0,
          self = 0x1000, pdev = p\<rparr>)"
  by (simp add: phantom_probe_def phantom_good_env_def phantom_get_free_def
      phantom_get_free_from.simps phn_consts Let_def)

definition phantom_sample :: phantom_device where
  "phantom_sample = \<lparr>opened = 0, caddr = 0x2000, iaddr = 0x3000, status = 0, cdev_minor = 0,
     self = 0x1000, pdev = 5\<rparr>"

lemma phantom_card:
  assumes "phantom_reach (devs, bound)"
  shows "finite (dom bound) \<and> card (dom bound) \<le> PHANTOM_MAX_MINORS"
proof -
  let ?m = "\<lambda>p. cdev_minor (the (bound p))"
  from phantom_reach_inv [OF assms] have "inj_on ?m (dom bound)"
    and "?m ` dom bound \<subseteq> {..<PHANTOM_MAX_MINORS}"
    by (auto simp: phantom_inv_def inj_on_def)
  then show ?thesis
    using card_inj_on_le [of ?m "dom bound" "{..<PHANTOM_MAX_MINORS}"]
      inj_on_finite [of ?m "dom bound" "{..<PHANTOM_MAX_MINORS}"] by simp
qed

section \<open>The bus\<close>

text \<open>
  The id table and the structure the module registers; the constants of the PLX 9050 come from the
  kernel's list of ids.
\<close>

definition phantom_pci_tbl :: "u32 \<Rightarrow> u32 \<Rightarrow> u32 \<Rightarrow> pci_device_id list" where
  "phantom_pci_tbl plx plx_9050 bridge_other =
     [Pci_id plx plx_9050 plx plx_9050 (push_bit 8 bridge_other) 0xffff00, Pci_end]"

definition phantom_pci_driver ::
  "pci_device_id list \<Rightarrow> (byte list, phantom_env, phantom_device) pci_driver_struct" where
  "phantom_pci_driver tbl = \<lparr>drv_name = ''phantom'', id_table = tbl, drv_probe = phantom_probe,
     drv_remove = phantom_remove\<rparr>"

lemma phantom_handle_calls: "c \<in> set (phantom_handle d ev) \<Longrightarrow> \<not> conflicts c G"
  by (cases ev) (auto simp: phantom_isr_def phantom_write_def Let_def
      split: if_splits option.splits prod.splits exec.splits)

lemma phantom_live_chr:
  "phantom_live d G \<Longrightarrow> Chrdev m \<in># G \<or> Node m \<in># G \<Longrightarrow> m = cdev_minor d"
  by (auto simp: phantom_live_def phantom_res_def)

lemma phantom_live_cookie:
  "phantom_live d G \<Longrightarrow> Irq p \<in># G \<or> Armed p \<in># G \<or> Queued p \<in># G \<Longrightarrow> Mem p \<in># G"
  by (auto simp: phantom_live_def phantom_res_def)

lemma phantom_probe_calls:
  "phantom_probe devs e = (devs1, tr, r) \<Longrightarrow> c \<in> set tr \<Longrightarrow>
   (\<forall>p. c = Kfree p \<longrightarrow> p = e_pht e \<and> Kmalloc p \<in> set tr) \<and>
   (\<forall>m x. c = Cdev_add m x \<longrightarrow> m = phantom_get_free devs \<and> m < PHANTOM_MAX_MINORS) \<and>
   (\<forall>m x. c = Device_create m x \<longrightarrow> m = phantom_get_free devs \<and> m < PHANTOM_MAX_MINORS)"
  using phantom_get_free_le [of devs]
  by (auto simp: phantom_probe_def goto_def err_labels Let_def split: if_splits)

lemma phantom_minor_apart:
  "phantom_inv (devs, b) \<Longrightarrow> b j = Some d \<Longrightarrow> phantom_get_free devs < PHANTOM_MAX_MINORS \<Longrightarrow>
   phantom_get_free devs \<noteq> cdev_minor d"
  using phantom_get_free_slot [of devs] minor_in_use_def [of b "cdev_minor d"]
  by (auto simp: phantom_inv_def)

lemma phantom_probe_apart:
  assumes "phantom_inv (devs, b)" and "b j = Some d" and G: "phantom_live d G"
    and p: "phantom_probe devs e = (devs1, tr, r)" "c \<in> set tr" and fr: "fresh_in tr G"
  shows "\<not> conflicts c G"
proof (cases c)
  case (Kfree q)
  with phantom_probe_calls [OF p] fresh_inD [OF fr] phantom_live_cookie [OF G] show ?thesis by auto
next
  case (Cdev_add m x)
  with phantom_probe_calls [OF p] phantom_minor_apart [OF assms(1,2)] phantom_live_chr [OF G]
  show ?thesis by auto
next
  case (Device_create m x)
  with phantom_probe_calls [OF p] phantom_minor_apart [OF assms(1,2)] phantom_live_chr [OF G]
  show ?thesis by auto
qed simp_all

lemma phantom_remove_apart:
  assumes "phantom_live d H" and "phantom_live d1 G" and "mem_apart H G"
    and "c \<in> set (snd (phantom_remove devs d))"
  shows "\<not> conflicts c G"
  using assms by (auto simp: phantom_remove_def Let_def mem_apart_def phantom_live_def phantom_res_def)

interpretation phantom_bus: bus_driver "phantom_pci_driver tbl" "\<lambda>_. phantom_handle" "\<lambda>_. phantom_live"
  "\<lambda>_. True" "\<lambda>_. {#}" e_pdev "\<lambda>devs b. phantom_inv (devs, b)"
  for tbl
  unfolding phantom_pci_driver_def
proof (intro bus_driver.intro bus_driver_axioms.intro, unfold pci_driver_struct.simps)
  show "leaky_pci_driver phantom_probe phantom_remove (\<lambda>_. phantom_handle) (\<lambda>_. phantom_live)
      (\<lambda>_. True) (\<lambda>_. {#})" by (rule phantom.leaky_pci_driver_axioms)
  show "phantom_inv (st1, b)" if "phantom_inv (st, b)" "phantom_probe st e = (st1, tr, Inl er)"
    for st st1 b e tr er
    using that phantom_probe_fail [of st e st1 tr er] by (simp add: phantom_inv_def)
  show "phantom_inv (fst (phantom_remove st d), b(i := None))"
    if "phantom_inv (st, b)" "b i = Some d" for st b i d
    using phantom_inv_unbind [OF that] by (metis prod.collapse)
qed (auto intro: phantom_inv_bind dest: phantom_probe_apart phantom_handle_calls phantom_remove_apart)


section \<open>Properties\<close>


definition two_phantoms :: "(phantom_env, phantom_event) bus_event list" where
  "two_phantoms =
    (let e1 = (phantom_good_env 1)\<lparr>e_pht := 0x1100, e_caddr := 0x4000, e_iaddr := 0x5000\<rparr>
     in [Plug (phantom_good_env 0), Plug (e1\<lparr>e_irq := -16\<rparr>), Callback 0 (Phantom_irq (16, 0, True)),
         Plug e1, Unplug 0, Callback 1 (Phantom_irq (0, 0, False))])"

lemma no_minors: "replicate PHANTOM_MAX_MINORS 0 = [0, 0, 0, 0, 0, 0, 0, 0]"
  by (simp add: PHANTOM_MAX_MINORS_def numeral_eq_Suc)


text \<open>
  Whatever devices come and go and whichever of the calls of a probe fail, the calls made
  over the whole history by probes, interrupts, writes and removals are legal (nothing is
  released twice or used after its release) and leave no resource held.
\<close>

theorem phantom_hotplug_no_leak:
  "kres_run (snd (hotplug phantom_probe phantom_remove (\<lambda>_. phantom_handle) devs cs)) {#} = Some {#}"
  by (rule phantom.hotplug_leaves_nothing) simp

text \<open>
  The same history leaves the table of minors as it found it: every error path and every
  removal gives the minor back.
\<close>

theorem phantom_hotplug_restores_minors:
  assumes "length devs = PHANTOM_MAX_MINORS"
  shows "fst (hotplug phantom_probe phantom_remove (\<lambda>_. phantom_handle) devs cs) = devs"
  using assms by (rule phantom.hotplug_restores)

theorem phantom_hotplug_restores_minors_witness:
  "fst (hotplug phantom_probe phantom_remove (\<lambda>_. phantom_handle) (replicate 8 0)
     [(phantom_good_env 3, [Phantom_irq (16, 0, True)]),
      ((phantom_good_env 4)\<lparr>e_irq := -5\<rparr>, [])]) = replicate 8 0"
  by (rule phantom_hotplug_restores_minors) (simp add: PHANTOM_MAX_MINORS_def)

text \<open>
  C2: Two devices bound at the same time never share a minor, every minor given out is below
  the size of the table, and its slot of the table is marked as taken.
\<close>

theorem phantom_minors_distinct:
  assumes "phantom_reach (devs, bound)"
    and "bound p = Some d" and "bound q = Some d1" and "p \<noteq> q"
  shows "cdev_minor d \<noteq> cdev_minor d1 \<and> cdev_minor d < PHANTOM_MAX_MINORS \<and>
    devs ! cdev_minor d = 1"
proof -
  from assms(2) have "minor_in_use bound (cdev_minor d)" by (auto simp: minor_in_use_def)
  with phantom_reach_inv [OF assms(1)] assms(2-) show ?thesis by (auto simp: phantom_inv_def)
qed

lemma phantom_reach_one:
  "\<exists>d. phantom_reach ([1, 0, 0, 0, 0, 0, 0, 0], [5 \<mapsto> d])"
proof -
  have "phantom_step (replicate PHANTOM_MAX_MINORS 0, Map.empty)
    ([1, 0, 0, 0, 0, 0, 0, 0], [5 \<mapsto> \<lparr>opened = 0, caddr = 0x2000, iaddr = 0x3000, status = 0,
       cdev_minor = 0, self = 0x1000, pdev = 5\<rparr>])"
    using phantom_step.bind [OF _ phantom_good_probe [of "replicate 7 0" 5], of Map.empty]
    by (simp add: phantom_good_env_def PHANTOM_MAX_MINORS_def numeral_eq_Suc)
  then show ?thesis by (blast intro: phantom_reach.intros)
qed

lemma phantom_reach_two:
  "\<exists>devs bound d d1. phantom_reach (devs, bound) \<and> bound 5 = Some d \<and> bound 7 = Some d1"
proof -
  let ?devs = "[1, 0, 0, 0, 0, 0, 0, 0] :: byte list"
  obtain d where d: "phantom_reach (?devs, [5 \<mapsto> d])" using phantom_reach_one by blast
  obtain devs1 tr d1 where "phantom_probe ?devs (phantom_good_env 7) = (devs1, tr, Inr d1)"
    by (auto simp: phantom_probe_def phantom_good_env_def phantom_get_free_def
      phantom_get_free_from.simps phn_consts Let_def)
  from phantom_step.bind [OF _ this, of "[5 \<mapsto> d]"]
  have "phantom_step (?devs, [5 \<mapsto> d]) (devs1, [5 \<mapsto> d, 7 \<mapsto> d1])"
    by (simp add: phantom_good_env_def)
  with d have "phantom_reach (devs1, [5 \<mapsto> d, 7 \<mapsto> d1])" by (rule phantom_reach.step)
  moreover have "([5 \<mapsto> d, 7 \<mapsto> d1] :: nat \<rightharpoonup> phantom_device) 5 = Some d"
    and "([5 \<mapsto> d, 7 \<mapsto> d1] :: nat \<rightharpoonup> phantom_device) 7 = Some d1" by simp_all
  ultimately show ?thesis by blast
qed

theorem phantom_minors_distinct_witness:
  "\<exists>devs bound d d1. phantom_reach (devs, bound) \<and> bound 5 = Some d \<and> bound 7 = Some d1 \<and>
     cdev_minor d \<noteq> cdev_minor d1"
proof -
  obtain devs bound d d1 where r: "phantom_reach (devs, bound)" "bound 5 = Some d"
    "bound 7 = Some d1" using phantom_reach_two by blast
  then have "cdev_minor d \<noteq> cdev_minor d1"
    using phantom_minors_distinct [OF r] by simp
  with r show ?thesis by blast
qed

text \<open>
  C3: At most eight devices are bound at a time; with every slot taken, a probe enables the
  device, finds no minor, disables the device again and fails with \<open>EIO\<close>.
\<close>

theorem phantom_full:
  assumes "phantom_reach (devs, bound)"
  shows "card (dom bound) \<le> PHANTOM_MAX_MINORS \<and>
    ((\<forall>i < PHANTOM_MAX_MINORS. devs ! i \<noteq> 0) \<and> e_enable e = 0 \<longrightarrow>
      phantom_probe devs e =
        (devs, [Pci_enable_device (e_pdev e) 0, Pci_disable_device (e_pdev e)], Inl EIO))"
  using phantom_card [OF assms]
  by (simp add: phantom_get_free_full [symmetric] phantom_probe_def goto_def err_dis_def Let_def)

text \<open>The reachable table with all eight devices bound.\<close>

definition taken :: "nat \<Rightarrow> byte list" where
  "taken n = replicate n 1 @ replicate (8 - n) 0"

lemma taken_next:
  assumes "n < 8"
  shows "(taken n)[n := 1] = taken (Suc n)"
proof -
  from assms obtain m where "8 - n = Suc m" and "8 - Suc n = m" by (metis Suc_diff_Suc)
  then show ?thesis
    by (simp add: taken_def list_update_append replicate_append_same [of n 1, symmetric])
qed

lemma taken_free: "n < 8 \<Longrightarrow> phantom_get_free (taken n) = n"
  using phantom_get_free_slot [of "taken n"] phantom_get_free_least [of n "taken n"]
    phantom_get_free_le [of "taken n"]
  by (cases "phantom_get_free (taken n)" n rule: linorder_cases)
    (auto simp: taken_def nth_append PHANTOM_MAX_MINORS_def)

lemma phantom_reach_n: "n \<le> 8 \<Longrightarrow> \<exists>bound. phantom_reach (taken n, bound) \<and> dom bound = {..<n}"
proof (induction n)
  case 0
  have "replicate PHANTOM_MAX_MINORS 0 = taken 0" by (simp add: taken_def PHANTOM_MAX_MINORS_def)
  with phantom_reach.loaded show ?case by (metis dom_empty lessThan_0)
next
  case (Suc n)
  then have n: "n < 8" by simp
  from Suc obtain bound where b: "phantom_reach (taken n, bound)" "dom bound = {..<n}" by auto
  from n obtain tr d
    where p: "phantom_probe (taken n) (phantom_good_env n) = ((taken n)[n := 1], tr, Inr d)"
    by (simp add: phantom_probe_def phantom_good_env_def phn_consts Let_def taken_free)
  from b(2) have "bound n = None" by auto
  with phantom_step.bind [OF _ p, of bound] n
  have "phantom_step (taken n, bound) (taken (Suc n), bound(n \<mapsto> d))"
    by (simp add: phantom_good_env_def taken_next)
  with b(1) have "phantom_reach (taken (Suc n), bound(n \<mapsto> d))" by (rule phantom_reach.step)
  moreover from b(2) have "dom (bound(n \<mapsto> d)) = {..<Suc n}" by (simp add: lessThan_Suc)
  ultimately show ?case by blast
qed

theorem phantom_full_witness:
  "\<exists>devs bound tr. phantom_reach (devs, bound) \<and> card (dom bound) = 8 \<and>
     phantom_probe devs (phantom_good_env 9) = (devs, tr, Inl EIO)"
proof -
  obtain bound where b: "phantom_reach (replicate 8 1, bound)" "dom bound = {..<8}"
    using phantom_reach_n [of 8] by (auto simp: taken_def)
  from phantom_full [OF b(1), of "phantom_good_env 9"]
  have "phantom_probe (replicate 8 1) (phantom_good_env 9) =
    (replicate 8 1, [Pci_enable_device 9 0, Pci_disable_device 9], Inl EIO)"
    by (simp add: phantom_good_env_def PHANTOM_MAX_MINORS_def)
  with b show ?thesis by (metis card_lessThan)
qed

text \<open>
  C4: However opens (interrupted by signals or not) and releases of a phantom device follow
  each other, at most one file is open at a time, and while one is, a further open is refused
  with \<open>EBUSY\<close> and changes nothing.
\<close>

theorem phantom_one_opener:
  assumes "file_reach (\<lambda>intr dev. snd (phantom_open intr dev))
      (\<lambda>_ dev. snd (phantom_release dev)) d0 (d, files)"
    and "opened d0 = 0" and "files i = Some m"
  shows "(files j = Some n \<longrightarrow> i = j) \<and> snd (phantom_open 0 d) = (Inl EBUSY, d)"
proof -
  have z: "opened d0 \<le> 1" using assms(2) by simp
  from phantom_files.busy_refused [OF assms(1) z assms(2,3), of 0]
  have "opened d \<noteq> 0" by (auto simp: phantom_open_def split: if_splits)
  then have "snd (phantom_open 0 d) = (Inl EBUSY, d)" by (simp add: phantom_open_def)
  with phantom_files.one_exclusive [OF assms(1) z assms(2,3)] show ?thesis by simp
qed

theorem phantom_one_opener_witness:
  "snd (phantom_open 0 (phantom_sample\<lparr>opened := 1\<rparr>)) = (Inl EBUSY, phantom_sample\<lparr>opened := 1\<rparr>)"
proof -
  have "file_reach (\<lambda>intr dev. snd (phantom_open intr dev)) (\<lambda>_ dev. snd (phantom_release dev))
      phantom_sample (phantom_sample\<lparr>opened := 1\<rparr>, [4 \<mapsto> 0])"
    by (rule file_more [OF file_start], rule file_open)
      (simp_all add: phantom_open_def phantom_sample_def)
  then show ?thesis
    using phantom_one_opener [of phantom_sample _ "[4 \<mapsto> 0]" 4 0 4 0]
    by (simp add: phantom_sample_def)
qed

text \<open>
  On a shared interrupt line with any number of phantom devices, the interrupt counts as
  handled exactly if some device has its interrupt bit set, every such device is acknowledged
  by writing 0 to its first register, and no other device is written to.
\<close>

theorem phantom_shared_line:
  "(fst (dispatch phantom_isr ds) = IRQ_HANDLED \<longleftrightarrow> (\<exists>x \<in> set ds. phantom_raised (snd x))) \<and>
   reg_writes (snd (dispatch phantom_isr ds)) =
     map (\<lambda>(d, h). (0, iaddr d, 0)) (filter (\<lambda>(d, h). phantom_raised h) ds)"
  unfolding phantom_irq.line_handled phantom_irq.line_writes
  by (simp add: comp_def case_prod_unfold)

end
