(* ===== verification/Locked.thy ===== *)
theory Locked
  imports Kernel
begin

text \<open>
  Critical sections as an interface. Handlers of different processes run interleaved; a
  handler that takes a lock, works on shared data in several steps and releases the lock
  should look as if it had worked in one step. The step relations below interleave any number
  of threads, with a lock and without one; the contract asks that the small steps of an
  operation, run without interruption, compute what its sequential model computes, and gives
  that every interleaved run under the lock is some sequential run.
\<close>

section \<open>Interleaved threads\<close>

text \<open>
  A thread is idle, waits for the lock with an operation to do, or has done \<open>k\<close> of its small
  steps and holds intermediate values \<open>r\<close> in its own variables.
\<close>

datatype ('op, 'r) pc = Idle | Waiting 'op | Inside 'op nat 'r

text \<open>\<open>hist\<close> records the finished operations with their results, oldest first.\<close>

record ('s, 'op, 'r) threads =
  shared :: 's
  owner :: "nat option"
  pcs :: "nat \<Rightarrow> ('op, 'r) pc"
  hist :: "('op \<times> 'r) list"

definition threads_start :: "'s \<Rightarrow> ('s, 'op, 'r) threads" where
  "threads_start s = \<lparr>shared = s, owner = None, pcs = (\<lambda>_. Idle), hist = []\<rparr>"

inductive lock_step ::
  "('op \<Rightarrow> ('s \<times> 'r \<Rightarrow> 's \<times> 'r) list) \<Rightarrow> ('op \<Rightarrow> 'r) \<Rightarrow>
   ('s, 'op, 'r) threads \<Rightarrow> ('s, 'op, 'r) threads \<Rightarrow> bool"
  for micro reg0 where
  call: "pcs c t = Idle \<Longrightarrow> lock_step micro reg0 c (c\<lparr>pcs := (pcs c)(t := Waiting op)\<rparr>)"
| lock: "pcs c t = Waiting op \<Longrightarrow> owner c = None \<Longrightarrow>
    lock_step micro reg0 c (c\<lparr>owner := Some t, pcs := (pcs c)(t := Inside op 0 (reg0 op))\<rparr>)"
| work: "pcs c t = Inside op k r \<Longrightarrow> k < length (micro op) \<Longrightarrow>
    (micro op ! k) (shared c, r) = (s1, r1) \<Longrightarrow>
    lock_step micro reg0 c (c\<lparr>shared := s1, pcs := (pcs c)(t := Inside op (Suc k) r1)\<rparr>)"
| unlock: "pcs c t = Inside op (length (micro op)) r \<Longrightarrow>
    lock_step micro reg0 c
      (c\<lparr>owner := None, pcs := (pcs c)(t := Idle), hist := hist c @ [(op, r)]\<rparr>)"

inductive lock_reach ::
  "('op \<Rightarrow> ('s \<times> 'r \<Rightarrow> 's \<times> 'r) list) \<Rightarrow> ('op \<Rightarrow> 'r) \<Rightarrow> 's \<Rightarrow> ('s, 'op, 'r) threads \<Rightarrow> bool"
  for micro reg0 s0 where
  lock_start: "lock_reach micro reg0 s0 (threads_start s0)"
| lock_more: "lock_reach micro reg0 s0 c \<Longrightarrow> lock_step micro reg0 c c1 \<Longrightarrow> lock_reach micro reg0 s0 c1"

text \<open>The same threads with no lock around the operation.\<close>

inductive race_step ::
  "('op \<Rightarrow> ('s \<times> 'r \<Rightarrow> 's \<times> 'r) list) \<Rightarrow> ('op \<Rightarrow> 'r) \<Rightarrow>
   ('s, 'op, 'r) threads \<Rightarrow> ('s, 'op, 'r) threads \<Rightarrow> bool"
  for micro reg0 where
  race_call: "pcs c t = Idle \<Longrightarrow>
    race_step micro reg0 c (c\<lparr>pcs := (pcs c)(t := Inside op 0 (reg0 op))\<rparr>)"
| race_work: "pcs c t = Inside op k r \<Longrightarrow> k < length (micro op) \<Longrightarrow>
    (micro op ! k) (shared c, r) = (s1, r1) \<Longrightarrow>
    race_step micro reg0 c (c\<lparr>shared := s1, pcs := (pcs c)(t := Inside op (Suc k) r1)\<rparr>)"
| race_return: "pcs c t = Inside op (length (micro op)) r \<Longrightarrow>
    race_step micro reg0 c (c\<lparr>pcs := (pcs c)(t := Idle), hist := hist c @ [(op, r)]\<rparr>)"

inductive race_reach ::
  "('op \<Rightarrow> ('s \<times> 'r \<Rightarrow> 's \<times> 'r) list) \<Rightarrow> ('op \<Rightarrow> 'r) \<Rightarrow> 's \<Rightarrow> ('s, 'op, 'r) threads \<Rightarrow> bool"
  for micro reg0 s0 where
  race_start: "race_reach micro reg0 s0 (threads_start s0)"
| race_more: "race_reach micro reg0 s0 c \<Longrightarrow> race_step micro reg0 c c1 \<Longrightarrow> race_reach micro reg0 s0 c1"

section \<open>Schedules\<close>

text \<open>
  A run under a given schedule: each entry names the thread that moves and, for an idle
  thread, the operation it starts. A thread that cannot move stays where it is.
\<close>

definition do_work ::
  "('op \<Rightarrow> ('s \<times> 'r \<Rightarrow> 's \<times> 'r) list) \<Rightarrow> nat \<Rightarrow> 'op \<Rightarrow> nat \<Rightarrow> 'r \<Rightarrow>
   ('s, 'op, 'r) threads \<Rightarrow> ('s, 'op, 'r) threads" where
  "do_work micro t op k r c =
     (let (s1, r1) = (micro op ! k) (shared c, r)
      in c\<lparr>shared := s1, pcs := (pcs c)(t := Inside op (Suc k) r1)\<rparr>)"

fun race_do ::
  "('op \<Rightarrow> ('s \<times> 'r \<Rightarrow> 's \<times> 'r) list) \<Rightarrow> ('op \<Rightarrow> 'r) \<Rightarrow> nat \<times> 'op \<Rightarrow>
   ('s, 'op, 'r) threads \<Rightarrow> ('s, 'op, 'r) threads" where
  "race_do micro reg0 (t, op0) c =
     (case pcs c t of
        Idle \<Rightarrow> c\<lparr>pcs := (pcs c)(t := Inside op0 0 (reg0 op0))\<rparr>
      | Waiting op \<Rightarrow> c
      | Inside op k r \<Rightarrow>
          if k < length (micro op) then do_work micro t op k r c
          else if k = length (micro op)
          then c\<lparr>pcs := (pcs c)(t := Idle), hist := hist c @ [(op, r)]\<rparr>
          else c)"

fun lock_do ::
  "('op \<Rightarrow> ('s \<times> 'r \<Rightarrow> 's \<times> 'r) list) \<Rightarrow> ('op \<Rightarrow> 'r) \<Rightarrow> nat \<times> 'op \<Rightarrow>
   ('s, 'op, 'r) threads \<Rightarrow> ('s, 'op, 'r) threads" where
  "lock_do micro reg0 (t, op0) c =
     (case pcs c t of
        Idle \<Rightarrow> c\<lparr>pcs := (pcs c)(t := Waiting op0)\<rparr>
      | Waiting op \<Rightarrow>
          if owner c = None
          then c\<lparr>owner := Some t, pcs := (pcs c)(t := Inside op 0 (reg0 op))\<rparr> else c
      | Inside op k r \<Rightarrow>
          if k < length (micro op) then do_work micro t op k r c
          else if k = length (micro op)
          then c\<lparr>owner := None, pcs := (pcs c)(t := Idle), hist := hist c @ [(op, r)]\<rparr>
          else c)"

lemma race_do_reach: "race_reach micro reg0 s0 c \<Longrightarrow> race_reach micro reg0 s0 (race_do micro reg0 x c)"
  by (cases x; cases "pcs c (fst x)")
    (auto simp: do_work_def split: prod.split intro: race_more race_step.intros)

lemma lock_do_reach: "lock_reach micro reg0 s0 c \<Longrightarrow> lock_reach micro reg0 s0 (lock_do micro reg0 x c)"
  by (cases x; cases "pcs c (fst x)")
    (auto simp: do_work_def split: prod.split intro: lock_more lock_step.intros)

lemma race_schedule:
  "race_reach micro reg0 s0 (fold (race_do micro reg0) xs (threads_start s0))"
  by (induction xs rule: rev_induct) (auto intro: race_start race_do_reach)

lemma lock_schedule:
  "lock_reach micro reg0 s0 (fold (lock_do micro reg0) xs (threads_start s0))"
  by (induction xs rule: rev_induct) (auto intro: lock_start lock_do_reach)

section \<open>Sequential replay\<close>

text \<open>
  A history is explained by the sequential operations if replaying it gives every operation
  the result it has in the history; the value is the final state.
\<close>

fun replay :: "('op \<Rightarrow> 's \<Rightarrow> 's \<times> 'r) \<Rightarrow> ('op \<times> 'r) list \<Rightarrow> 's \<Rightarrow> 's option" where
  "replay atomic [] s = Some s"
| "replay atomic ((op, r) # h) s =
     (if snd (atomic op s) = r then replay atomic h (fst (atomic op s)) else None)"

lemma replay_snoc:
  "replay atomic (h @ [(op, r)]) s =
     (case replay atomic h s of None \<Rightarrow> None
      | Some s1 \<Rightarrow> if snd (atomic op s1) = r then Some (fst (atomic op s1)) else None)"
  by (induction atomic h s rule: replay.induct) simp_all

text \<open>What every sequential operation keeps, the replay of a history keeps.\<close>

lemma replay_keeps:
  "replay atomic h s = Some s1 \<Longrightarrow> I s \<Longrightarrow> (\<And>op s. I s \<Longrightarrow> I (fst (atomic op s))) \<Longrightarrow> I s1"
proof (induction h arbitrary: s)
  case Nil
  then show ?case by simp
next
  case (Cons x h)
  then show ?case by (cases x) (auto split: if_splits)
qed

lemma replay_results:
  "replay atomic h s = Some s1 \<Longrightarrow> I s \<Longrightarrow> (\<And>op s. I s \<Longrightarrow> I (fst (atomic op s))) \<Longrightarrow>
   (op, r) \<in> set h \<Longrightarrow> \<exists>s2. I s2 \<and> r = snd (atomic op s2)"
proof (induction h arbitrary: s)
  case Nil
  then show ?case by simp
next
  case (Cons x h)
  then show ?case by (cases x) (auto split: if_splits)
qed

text \<open>The state a history leads to, and the result of an operation in the middle of it.\<close>

abbreviation after :: "('op \<Rightarrow> 's \<Rightarrow> 's \<times> 'r) \<Rightarrow> ('op \<times> 'r) list \<Rightarrow> 's \<Rightarrow> 's" where
  "after atomic h s \<equiv> fold (\<lambda>(op, r) s. fst (atomic op s)) h s"

lemma replay_state: "replay atomic h s = Some s1 \<Longrightarrow> s1 = after atomic h s"
  by (induction atomic h s rule: replay.induct) (auto split: if_splits)

lemma replay_at:
  "replay atomic (h1 @ (op, r) # h2) s = Some s1 \<Longrightarrow> r = snd (atomic op (after atomic h1 s))"
  by (induction atomic h1 s rule: replay.induct) (auto split: if_splits)

lemma after_keeps:
  "I s \<Longrightarrow> (\<And>op s. I s \<Longrightarrow> I (fst (atomic op s))) \<Longrightarrow> I (after atomic h s)"
  by (induction h arbitrary: s) auto

section \<open>The contract\<close>

locale locked_op =
  fixes micro :: "'op \<Rightarrow> ('s \<times> 'r \<Rightarrow> 's \<times> 'r) list"
    and reg0 :: "'op \<Rightarrow> 'r"
    and atomic :: "'op \<Rightarrow> 's \<Rightarrow> 's \<times> 'r"
  assumes micro_atomic: "fold (\<lambda>f. f) (micro op) (s, reg0 op) = atomic op s"
begin

text \<open>Exactly the owner is inside, and it is \<open>k\<close> small steps past a sequential state.\<close>

definition inside :: "('s, 'op, 'r) threads \<Rightarrow> nat \<Rightarrow> bool" where
  "inside c t \<longleftrightarrow> (\<exists>op k r. pcs c t = Inside op k r)"

definition midway :: "'s \<Rightarrow> ('s, 'op, 'r) threads \<Rightarrow> nat \<Rightarrow> bool" where
  "midway s0 c t \<longleftrightarrow> (\<exists>op k r s. pcs c t = Inside op k r \<and> k \<le> length (micro op) \<and>
     replay atomic (hist c) s0 = Some s \<and>
     fold (\<lambda>f. f) (take k (micro op)) (s, reg0 op) = (shared c, r))"

definition linv :: "'s \<Rightarrow> ('s, 'op, 'r) threads \<Rightarrow> bool" where
  "linv s0 c \<longleftrightarrow> (\<forall>t. inside c t \<longleftrightarrow> owner c = Some t) \<and>
     (case owner c of None \<Rightarrow> replay atomic (hist c) s0 = Some (shared c) | Some t \<Rightarrow> midway s0 c t)"

lemma linv_work:
  assumes "linv s0 c" and pc: "pcs c t = Inside op k r" and k: "k < length (micro op)"
    and f: "(micro op ! k) (shared c, r) = (s1, r1)"
  shows "linv s0 (c\<lparr>shared := s1, pcs := (pcs c)(t := Inside op (Suc k) r1)\<rparr>)"
    (is "linv s0 ?c")
proof -
  from assms(1) have in_own: "\<And>t1. inside c t1 \<longleftrightarrow> owner c = Some t1" by (simp add: linv_def)
  from pc have "inside c t" by (simp add: inside_def)
  with in_own have own: "owner c = Some t" by blast
  with assms(1) have "midway s0 c t" by (simp add: linv_def)
  with pc k obtain s where s: "replay atomic (hist c) s0 = Some s"
    "fold (\<lambda>f. f) (take k (micro op)) (s, reg0 op) = (shared c, r)"
    by (auto simp: midway_def)
  with k f have "fold (\<lambda>f. f) (take (Suc k) (micro op)) (s, reg0 op) = (s1, r1)"
    by (simp add: take_Suc_conv_app_nth)
  with s k have "midway s0 ?c t" by (auto simp: midway_def)
  moreover have "inside ?c t1 \<longleftrightarrow> inside c t1" for t1 using pc by (simp add: inside_def)
  ultimately show ?thesis using own in_own by (simp add: linv_def)
qed

lemma linv_unlock:
  assumes "linv s0 c" and pc: "pcs c t = Inside op (length (micro op)) r"
  shows "linv s0 (c\<lparr>owner := None, pcs := (pcs c)(t := Idle), hist := hist c @ [(op, r)]\<rparr>)"
    (is "linv s0 ?c")
proof -
  from assms(1) have in_own: "\<And>t1. inside c t1 \<longleftrightarrow> owner c = Some t1" by (simp add: linv_def)
  from pc have "inside c t" by (simp add: inside_def)
  with in_own have own: "owner c = Some t" by blast
  with assms(1) have "midway s0 c t" by (simp add: linv_def)
  with pc obtain s where s: "replay atomic (hist c) s0 = Some s" "atomic op s = (shared c, r)"
    by (auto simp: midway_def micro_atomic)
  then have "replay atomic (hist ?c) s0 = Some (shared ?c)" by (simp add: replay_snoc)
  moreover have "\<not> inside ?c t1" for t1
    using in_own [of t1] own by (auto simp: inside_def)
  ultimately show ?thesis by (simp add: linv_def)
qed

lemma linv_step: "lock_step micro reg0 c c1 \<Longrightarrow> linv s0 c \<Longrightarrow> linv s0 c1"
proof (induction rule: lock_step.induct)
  case (call c t op)
  have "inside (c\<lparr>pcs := (pcs c)(t := Waiting op)\<rparr>) t1 \<longleftrightarrow> inside c t1" for t1
    using call by (simp add: inside_def)
  with call show ?case by (auto simp: linv_def midway_def split: option.splits)
next
  case (lock c t op)
  let ?c = "c\<lparr>owner := Some t, pcs := (pcs c)(t := Inside op 0 (reg0 op))\<rparr>"
  from lock have "midway s0 ?c t" by (simp add: linv_def midway_def)
  moreover have "inside ?c t1 \<longleftrightarrow> t1 = t" for t1
    using lock by (auto simp: linv_def inside_def)
  ultimately show ?case by (auto simp: linv_def)
next
  case (work c t op k r s1 r1)
  then show ?case by (blast intro: linv_work)
next
  case (unlock c t op r)
  then show ?case by (blast intro: linv_unlock)
qed

lemma reach_linv: "lock_reach micro reg0 s0 c \<Longrightarrow> linv s0 c"
proof (induction rule: lock_reach.induct)
  case lock_start
  show ?case by (simp add: linv_def inside_def threads_start_def)
next
  case (lock_more c c1)
  then show ?case by (blast intro: linv_step)
qed

text \<open>Every run is, whenever the lock is free, a sequential run of the finished operations.\<close>

lemma linearizable:
  "lock_reach micro reg0 s0 c \<Longrightarrow> owner c = None \<Longrightarrow> replay atomic (hist c) s0 = Some (shared c)"
  using reach_linv [of s0 c] by (simp add: linv_def)

lemma results_sequential:
  assumes "lock_reach micro reg0 s0 c"
  shows "\<exists>s. replay atomic (hist c) s0 = Some s"
  using reach_linv [OF assms] by (auto simp: linv_def midway_def split: option.splits)

lemma mutual_exclusion:
  "lock_reach micro reg0 s0 c \<Longrightarrow> pcs c t = Inside op k r \<Longrightarrow> pcs c t1 = Inside op1 k1 r1 \<Longrightarrow> t = t1"
  using reach_linv [of s0 c] unfolding linv_def inside_def by (metis option.inject)

text \<open>The owner can always go on, and after its remaining steps the lock is free again.\<close>

lemma finishes:
  "pcs c t = Inside op k r \<Longrightarrow> k \<le> length (micro op) \<Longrightarrow>
   \<exists>c1. (lock_step micro reg0)\<^sup>*\<^sup>* c c1 \<and> owner c1 = None \<and> pcs c1 t = Idle"
proof (induction "length (micro op) - k" arbitrary: c k r)
  case 0
  then have "pcs c t = Inside op (length (micro op)) r" by simp
  from lock_step.unlock [where c = c and micro = micro, OF this, of reg0]
  show ?case by (intro exI conjI) (erule r_into_rtranclp, simp_all)
next
  case (Suc n)
  then have k: "k < length (micro op)" and n: "n = length (micro op) - Suc k" by simp_all
  obtain s1 r1 where f: "(micro op ! k) (shared c, r) = (s1, r1)" by fastforce
  let ?c = "c\<lparr>shared := s1, pcs := (pcs c)(t := Inside op (Suc k) r1)\<rparr>"
  have "lock_step micro reg0 c ?c" using Suc.prems(1) k f by (rule lock_step.work)
  moreover have "\<exists>c1. (lock_step micro reg0)\<^sup>*\<^sup>* ?c c1 \<and> owner c1 = None \<and> pcs c1 t = Idle"
    using Suc.hyps(1) [OF n, of ?c r1] k by simp
  ultimately show ?case by (meson converse_rtranclp_into_rtranclp)
qed

lemma lock_released:
  assumes "lock_reach micro reg0 s0 c" and "owner c = Some t"
  shows "\<exists>c1. (lock_step micro reg0)\<^sup>*\<^sup>* c c1 \<and> owner c1 = None"
proof -
  from reach_linv [OF assms(1)] assms(2) have "midway s0 c t" by (simp add: linv_def)
  then obtain op k r where "pcs c t = Inside op k r" "k \<le> length (micro op)"
    by (auto simp: midway_def)
  from finishes [OF this] show ?thesis by blast
qed

end

end
