(* ===== verification/Char_Device.thy ===== *)
theory Char_Device
  imports Locked
begin

text \<open>
  The greeting device of the homeworks 02, 03, 04 and 06 (\<open>my_fops\<close> in each \<open>pb173.c\<close>): an
  integer \<open>char_count\<close> set and read by ioctl, a read that returns the first \<open>char_count\<close>
  letters of a greeting, a write that prints, and a counter of open instances. The four
  versions differ in locking and in how often they load the shared integer; each is modelled
  from its own text.
\<close>

section \<open>State\<close>

text \<open>The globals \<open>int char_count\<close> and \<open>u32 count\<close> (the latter from homework 03 on).\<close>

record chardev =
  char_count :: u32
  open_count :: u32

definition chardev_init :: chardev where
  "chardev_init = \<lparr>char_count = 4, open_count = 0\<rparr>"

section \<open>Ioctl numbers\<close>

text \<open>
  The macros of the kernel's \<open>ioctl.h\<close> are an argument of the model. What the code relies on
  is documented there: an encoded number gives back its type and its sequence number, and a
  read command is never a write command.
\<close>

record ioc_abi =
  IOC_TYPE :: "u32 \<Rightarrow> u32"
  IOC_NR :: "u32 \<Rightarrow> u32"
  IOR :: "u32 \<Rightarrow> u32 \<Rightarrow> u32 \<Rightarrow> u32"
  IOW :: "u32 \<Rightarrow> u32 \<Rightarrow> u32 \<Rightarrow> u32"

definition ioc_ok :: "ioc_abi \<Rightarrow> bool" where
  "ioc_ok abi \<longleftrightarrow> (\<forall>t nr sz. t < 256 \<longrightarrow> nr < 256 \<longrightarrow> sz < 8192 \<longrightarrow>
     IOC_TYPE abi (IOR abi t nr sz) = t \<and> IOC_NR abi (IOR abi t nr sz) = nr \<and>
     IOC_TYPE abi (IOW abi t nr sz) = t \<and> IOC_NR abi (IOW abi t nr sz) = nr)"

definition MY_IOC_MAGIC :: u32 where "MY_IOC_MAGIC = of_char (CHR ''$'')"
definition MY_READ :: "ioc_abi \<Rightarrow> u32" where "MY_READ abi = IOR abi MY_IOC_MAGIC 16 4"
definition MY_WRITE :: "ioc_abi \<Rightarrow> u32" where "MY_WRITE abi = IOW abi MY_IOC_MAGIC 17 4"

lemma MY_IOC_MAGIC_val: "MY_IOC_MAGIC = 36"
  by (simp add: MY_IOC_MAGIC_def)

lemma my_cmds:
  assumes "ioc_ok abi"
  shows "IOC_TYPE abi (MY_READ abi) = MY_IOC_MAGIC" and "IOC_NR abi (MY_READ abi) = 16"
    and "IOC_TYPE abi (MY_WRITE abi) = MY_IOC_MAGIC" and "IOC_NR abi (MY_WRITE abi) = 17"
    and "MY_READ abi \<noteq> MY_WRITE abi"
proof -
  show a: "IOC_TYPE abi (MY_READ abi) = MY_IOC_MAGIC" "IOC_NR abi (MY_READ abi) = 16"
    "IOC_TYPE abi (MY_WRITE abi) = MY_IOC_MAGIC" "IOC_NR abi (MY_WRITE abi) = 17"
    using assms by (simp_all add: ioc_ok_def MY_READ_def MY_WRITE_def MY_IOC_MAGIC_val)
  show "MY_READ abi \<noteq> MY_WRITE abi"
  proof
    assume "MY_READ abi = MY_WRITE abi"
    with a(2,4) have "(16 :: u32) = 17" by simp
    then show False by simp
  qed
qed

text \<open>
  An instance: the generic encoding, with the direction, size, type and number in fields of 2,
  14, 8 and 8 bits.
\<close>

definition ioc_enc :: "u32 \<Rightarrow> u32 \<Rightarrow> u32 \<Rightarrow> u32 \<Rightarrow> u32" where
  "ioc_enc dir t nr sz = push_bit 30 dir OR push_bit 8 t OR nr OR push_bit 16 sz"

definition asm_generic :: ioc_abi where
  "asm_generic = \<lparr>IOC_TYPE = (\<lambda>c. drop_bit 8 c AND 0xff), IOC_NR = (\<lambda>c. c AND 0xff),
     IOR = ioc_enc 2, IOW = ioc_enc 1\<rparr>"

lemma byte_bits:
  assumes "w < (256 :: u32)" and "bit w n"
  shows "n < 8"
proof (rule ccontr)
  assume n: "\<not> n < 8"
  from assms(1) have "drop_bit 8 w = 0" by (simp add: drop_bit_eq_div div_word_less)
  then have "\<not> bit (drop_bit 8 w) (n - 8)" by simp
  with n assms(2) show False by (simp add: bit_drop_bit_eq)
qed

lemma ioc_enc_fields:
  assumes t: "t < 256" and nr: "nr < 256"
  shows "ioc_enc dir t nr sz AND 0xff = nr" and "drop_bit 8 (ioc_enc dir t nr sz) AND 0xff = t"
proof -
  have ff: "(0xff :: u32) = mask 8" by (simp add: mask_eq_exp_minus_1)
  show "ioc_enc dir t nr sz AND 0xff = nr"
    unfolding ff ioc_enc_def
    by (rule bit_word_eqI) (use byte_bits [OF nr] in \<open>auto simp: bit_simps\<close>)
  show "drop_bit 8 (ioc_enc dir t nr sz) AND 0xff = t"
    unfolding ff ioc_enc_def
    by (rule bit_word_eqI)
      (use byte_bits [OF nr] byte_bits [OF t] in \<open>fastforce simp: bit_simps\<close>)
qed

lemma ioc_ok_asm_generic: "ioc_ok asm_generic"
  by (simp add: ioc_ok_def asm_generic_def ioc_enc_fields)

section \<open>Open, release, write\<close>

text \<open>Homework 03: the counter of open instances, without a lock.\<close>

definition my_open :: "chardev \<Rightarrow> (errno + int) \<times> chardev" where
  "my_open st = (Inr 0, st\<lparr>open_count := open_count st + 1\<rparr>)"

definition my_release :: "chardev \<Rightarrow> (errno + int) \<times> chardev" where
  "my_release st = (Inr 0, st\<lparr>open_count := open_count st - 1\<rparr>)"

text \<open>
  The buffer is allocated one byte longer than the data (the addition wraps), filled from user
  memory, terminated, printed as a C string and freed. A buffer that is NULL or too short for
  the data and its terminator is written out of bounds.
\<close>

definition my_write ::
  "(u64 \<Rightarrow> addr) \<Rightarrow> copy_from_user \<Rightarrow> addr \<Rightarrow> u64 \<Rightarrow> ((errno + u64) \<times> kcall list) exec" where
  "my_write kmalloc cfu buf cnt =
     (let str = kmalloc (cnt + 1); (nc, bs) = cfu buf (unat cnt)
      in if str = NULL \<or> unat (cnt + 1) < unat cnt + 1 then Fault
         else if nc \<noteq> 0 then Ret (Inl EFAULT, [Kmalloc str])
         else Ret (Inr cnt, [Kmalloc str, Printk (cstr (bs @ [0])), Kfree str]))"

section \<open>Read\<close>

text \<open>The string the switch copies.\<close>

definition greeting :: "u32 \<Rightarrow> byte list" where
  "greeting c =
     (if c = 1 then str_bytes ''A''
      else if c = 2 then str_bytes ''Ah''
      else if c = 3 then str_bytes ''Aho''
      else str_bytes ''Ahoj'')"

text \<open>
  Homework 02 loads \<open>char_count\<close> twice: in the switch (\<open>c1\<close>) and for the return value (\<open>c2\<close>).
  \<open>stk\<close> is what the five bytes of the local array held before; all five are copied out,
  whatever the number of bytes the caller asked for.
\<close>

definition my_read_loads ::
  "u32 \<Rightarrow> u32 \<Rightarrow> byte list \<Rightarrow> copy_to_user \<Rightarrow> addr \<Rightarrow> u64 \<Rightarrow>
   ((errno + int) \<times> user_writes) exec" where
  "my_read_loads c1 c2 stk ctu buf cnt =
     exec_bind (strcpy stk (greeting c1)) (\<lambda>str.
       let nc = ctu buf str
       in Ret (if nc \<noteq> 0 then Inl EFAULT else Inr (sint c2), delivered buf str nc))"

definition my_read ::
  "chardev \<Rightarrow> byte list \<Rightarrow> copy_to_user \<Rightarrow> addr \<Rightarrow> u64 \<Rightarrow> ((errno + int) \<times> user_writes) exec" where
  "my_read st = my_read_loads (char_count st) (char_count st)"

text \<open>Homeworks 04 and 06 load it once, under the lock, into \<open>chars_to_ret\<close>.\<close>

definition my_read_copy ::
  "chardev \<Rightarrow> byte list \<Rightarrow> copy_to_user \<Rightarrow> addr \<Rightarrow> u64 \<Rightarrow> ((errno + int) \<times> user_writes) exec" where
  "my_read_copy st stk ctu buf cnt =
     (let chars_to_ret = char_count st
      in exec_bind (strcpy stk (greeting chars_to_ret)) (\<lambda>str.
           let nc = ctu buf str
           in Ret (if nc \<noteq> 0 then Inl EFAULT else Inr (sint chars_to_ret),
                   delivered buf str nc)))"

section \<open>Ioctl\<close>

text \<open>The result, the state after it and what was copied to user memory.\<close>

definition my_unlocked_ioctl ::
  "ioc_abi \<Rightarrow> copy_to_user \<Rightarrow> u32 \<Rightarrow> u64 \<Rightarrow> chardev \<Rightarrow> (errno + int) \<times> chardev \<times> user_writes" where
  "my_unlocked_ioctl abi ctu cmd arg st =
     (if IOC_TYPE abi cmd \<noteq> MY_IOC_MAGIC then (Inl ENOTTY, st, [])
      else if IOC_NR abi cmd \<noteq> 16 \<and> IOC_NR abi cmd \<noteq> 17 then (Inl ENOTTY, st, [])
      else if cmd = MY_WRITE abi \<and> (arg < 1 \<or> arg > 4) then (Inl EINVAL, st, [])
      else
        let st1 = (if cmd = MY_WRITE abi then st\<lparr>char_count := ucast arg\<rparr> else st)
        in if cmd = MY_READ abi
           then let src = le32 (char_count st1); nc = ctu arg src
                in (if nc \<noteq> 0 then Inl EFAULT else Inr 0, st1, delivered arg src nc)
           else (Inr 0, st1, []))"

text \<open>
  Homework 04: the function has no \<open>return\<close> after the two commands; \<open>None\<close> is the value of a
  call that runs off its end.
\<close>

definition my_unlocked_ioctl_04 ::
  "ioc_abi \<Rightarrow> copy_to_user \<Rightarrow> u32 \<Rightarrow> u64 \<Rightarrow> chardev \<Rightarrow>
   (errno + int) option \<times> chardev \<times> user_writes" where
  "my_unlocked_ioctl_04 abi ctu cmd arg st =
     (if IOC_TYPE abi cmd \<noteq> MY_IOC_MAGIC then (Some (Inl ENOTTY), st, [])
      else if IOC_NR abi cmd \<noteq> 16 \<and> IOC_NR abi cmd \<noteq> 17 then (Some (Inl ENOTTY), st, [])
      else if cmd = MY_WRITE abi \<and> (arg < 1 \<or> arg > 4) then (Some (Inl EINVAL), st, [])
      else
        let st1 = (if cmd = MY_WRITE abi then st\<lparr>char_count := ucast arg\<rparr> else st)
        in if cmd = MY_READ abi
           then let char_count_cpy = char_count st1; src = le32 char_count_cpy; nc = ctu arg src
                in (if nc \<noteq> 0 then Some (Inl EFAULT) else None, st1, delivered arg src nc)
           else (None, st1, []))"

text \<open>Homework 06 has the \<open>return\<close>.\<close>

definition my_unlocked_ioctl_06 ::
  "ioc_abi \<Rightarrow> copy_to_user \<Rightarrow> u32 \<Rightarrow> u64 \<Rightarrow> chardev \<Rightarrow> (errno + int) \<times> chardev \<times> user_writes" where
  "my_unlocked_ioctl_06 abi ctu cmd arg st =
     (if IOC_TYPE abi cmd \<noteq> MY_IOC_MAGIC then (Inl ENOTTY, st, [])
      else if IOC_NR abi cmd \<noteq> 16 \<and> IOC_NR abi cmd \<noteq> 17 then (Inl ENOTTY, st, [])
      else if cmd = MY_WRITE abi \<and> (arg < 1 \<or> arg > 4) then (Inl EINVAL, st, [])
      else
        let st1 = (if cmd = MY_WRITE abi then st\<lparr>char_count := ucast arg\<rparr> else st)
        in if cmd = MY_READ abi
           then let char_count_cpy = char_count st1; src = le32 char_count_cpy; nc = ctu arg src
                in (if nc \<noteq> 0 then Inl EFAULT else Inr 0, st1, delivered arg src nc)
           else (Inr 0, st1, []))"

section \<open>What the operations keep\<close>

text \<open>Every value an ioctl stores is one of the four lengths of the greeting.\<close>

definition char_ok :: "chardev \<Rightarrow> bool" where
  "char_ok st \<longleftrightarrow> 1 \<le> char_count st \<and> char_count st \<le> 4"

lemma one_to_four: "1 \<le> c \<Longrightarrow> c \<le> 4 \<Longrightarrow> c = 1 \<or> c = 2 \<or> c = 3 \<or> c = (4 :: u32)"
  by (simp add: word_le_nat_alt word_unat_eq_iff) arith

lemma one_to_four_64: "\<not> c < 1 \<Longrightarrow> \<not> 4 < c \<Longrightarrow> c = 1 \<or> c = 2 \<or> c = 3 \<or> c = (4 :: u64)"
  by (simp add: word_less_nat_alt word_unat_eq_iff) arith

lemma greeting_prefix:
  "1 \<le> c \<Longrightarrow> c \<le> 4 \<Longrightarrow> greeting c = take (unat c) (str_bytes ''Ahoj'')"
  by (drule (1) one_to_four) (auto simp: greeting_def str_bytes_def)

lemma length_greeting: "1 \<le> c \<Longrightarrow> c \<le> 4 \<Longrightarrow> length (greeting c) = unat c"
  by (drule (1) one_to_four) (auto simp: greeting_def)

lemma greeting_fits:
  "1 \<le> c \<Longrightarrow> c \<le> 4 \<Longrightarrow> length stk = 5 \<Longrightarrow>
   strcpy stk (greeting c) = Ret (greeting c @ 0 # drop (unat c + 1) stk)"
  using length_greeting [of c] by (simp add: strcpy_def blit_def word_le_nat_alt)

lemma sint_one_to_four: "1 \<le> c \<Longrightarrow> c \<le> (4 :: u32) \<Longrightarrow> sint c = int (unat c)"
  by (drule (1) one_to_four) auto

lemma greeting_no_nul: "0 \<notin> set (greeting c)"
  by (auto simp: greeting_def str_bytes_def)

lemma ucast_one_to_four:
  assumes "\<not> arg < 1" and "\<not> 4 < (arg :: u64)"
  shows "1 \<le> (ucast arg :: u32)" and "(ucast arg :: u32) \<le> 4"
    and "unat (ucast arg :: u32) = unat arg" and "uint (ucast arg :: u32) = uint arg"
  using one_to_four_64 [OF assms] by auto

lemma ioctl_char_ok: "char_ok st \<Longrightarrow> char_ok (fst (snd (my_unlocked_ioctl abi ctu cmd arg st)))"
  by (auto simp: my_unlocked_ioctl_def Let_def char_ok_def ucast_one_to_four)

lemma ioctl_open_count:
  "open_count (fst (snd (my_unlocked_ioctl abi ctu cmd arg st))) = open_count st"
  by (simp add: my_unlocked_ioctl_def Let_def)

lemma my_read_ok:
  assumes "char_ok st" and "length stk = 5"
  shows "my_read st stk ctu buf cnt =
    (let c = char_count st; str = greeting c @ 0 # drop (unat c + 1) stk; nc = ctu buf str
     in Ret (if nc \<noteq> 0 then Inl EFAULT else Inr (int (unat c)), delivered buf str nc))"
  using assms one_to_four [of "char_count st"]
  by (auto simp: my_read_def my_read_loads_def char_ok_def strcpy_def blit_def length_greeting
      sint_one_to_four Let_def)

lemma my_read_copy_eq: "my_read_copy st = my_read st"
  by (simp add: fun_eq_iff my_read_copy_def my_read_def my_read_loads_def Let_def)

text \<open>A history of calls on the device.\<close>

datatype char_call = Call_open | Call_release | Call_ioctl copy_to_user u32 u64

fun char_exec :: "ioc_abi \<Rightarrow> char_call \<Rightarrow> chardev \<Rightarrow> chardev" where
  "char_exec abi Call_open st = snd (my_open st)"
| "char_exec abi Call_release st = snd (my_release st)"
| "char_exec abi (Call_ioctl ctu cmd arg) st = fst (snd (my_unlocked_ioctl abi ctu cmd arg st))"

lemma char_ok_open_count [simp]: "char_ok (st\<lparr>open_count := n\<rparr>) = char_ok st"
  by (simp add: char_ok_def)

lemma char_exec_ok: "char_ok st \<Longrightarrow> char_ok (char_exec abi call st)"
  by (cases call) (simp_all add: my_open_def my_release_def ioctl_char_ok)

lemma char_run_ok: "char_ok st \<Longrightarrow> char_ok (fold (char_exec abi) calls st)"
  by (induction calls arbitrary: st) (simp_all add: char_exec_ok)

lemma char_run_count:
  "open_count (fold (char_exec abi) calls st) =
     open_count st + of_nat (count_list calls Call_open) - of_nat (count_list calls Call_release)"
proof (induction calls arbitrary: st)
  case Nil
  show ?case by simp
next
  case (Cons call calls)
  then show ?case
    by (cases call) (simp_all add: my_open_def my_release_def ioctl_open_count algebra_simps)
qed

section \<open>Properties\<close>

text \<open>
  After any history of opens, releases and ioctls, whatever their commands and arguments
  and however the copies to user memory end, a read neither overflows its local array nor
  returns anything but the length, between 1 and 4, of the prefix of ''Ahoj'' it has copied
  out; and the counter of open instances is the number of opens less that of releases (modulo
  the width of the counter).
\<close>

theorem char_device_history:
  "let st = fold (char_exec abi) calls chardev_init; stk = [a, b, c, d, e]
   in \<exists>n. n \<in> {1..4} \<and>
        my_read st stk (\<lambda>_ _. 0) buf cnt =
          Ret (Inr (int n), [(buf, take n (str_bytes ''Ahoj'') @ 0 # drop (n + 1) stk)]) \<and>
        open_count st = of_nat (count_list calls Call_open) - of_nat (count_list calls Call_release)"
proof -
  let ?st = "fold (char_exec abi) calls chardev_init" and ?stk = "[a, b, c, d, e]"
  let ?n = "unat (char_count ?st)"
  have ok: "char_ok ?st" by (rule char_run_ok) (simp add: char_ok_def chardev_init_def)
  then have g: "greeting (char_count ?st) = take ?n (str_bytes ''Ahoj'')"
    by (simp add: char_ok_def greeting_prefix)
  from ok have n: "?n \<in> {1..4}" using one_to_four [of "char_count ?st"] by (auto simp: char_ok_def)
  have "my_read ?st ?stk (\<lambda>_ _. 0) buf cnt =
      Ret (Inr (int ?n), [(buf, greeting (char_count ?st) @ 0 # drop (?n + 1) ?stk)])"
    using my_read_ok [OF ok, of ?stk "\<lambda>_ _. 0" buf cnt] n
    by (simp add: delivered_def Let_def g)
  with n show ?thesis
    unfolding Let_def g char_run_count by (intro exI [of _ ?n]) (simp add: chardev_init_def)
qed

text \<open>
  An ioctl that sets a length between 1 and 4 succeeds and touches nothing but the length;
  the next read returns that many letters of the greeting, and the next get ioctl copies out
  an integer of that value.
\<close>

theorem ioctl_set_then_read:
  assumes "ioc_ok abi" and "1 \<le> arg" and "arg \<le> 4" and "length stk = 5"
  shows "\<exists>st1. my_unlocked_ioctl abi ctu (MY_WRITE abi) arg st = (Inr 0, st1, []) \<and>
    open_count st1 = open_count st \<and>
    (\<exists>out. my_read st1 stk (\<lambda>_ _. 0) buf cnt = Ret (Inr (int (unat arg)), [(buf, out)]) \<and>
       cstr out = take (unat arg) (str_bytes ''Ahoj'')) \<and>
    (\<exists>out. my_unlocked_ioctl abi (\<lambda>_ _. 0) (MY_READ abi) p st1 = (Inr 0, st1, [(p, out)]) \<and>
       unat (of_le32 out) = unat arg)"
proof -
  let ?st = "st\<lparr>char_count := ucast arg\<rparr>"
  have arg: "\<not> arg < 1" "\<not> 4 < arg" using assms(2,3) by auto
  note u = ucast_one_to_four [OF arg]
  have "char_ok ?st" using u by (simp add: char_ok_def)
  then have r: "my_read ?st stk (\<lambda>_ _. 0) buf cnt =
      Ret (Inr (int (unat arg)), [(buf, greeting (ucast arg) @ 0 # drop (unat arg + 1) stk)])"
    using my_read_ok [of ?st stk "\<lambda>_ _. 0" buf cnt] assms(4) u
    by (simp add: delivered_def length_greeting Let_def)
  have "cstr (greeting (ucast arg) @ 0 # drop (unat arg + 1) stk) = greeting (ucast arg)"
    using greeting_no_nul [of "ucast arg"] by (auto simp: cstr_def takeWhile_append)
  also have "greeting (ucast arg) = take (unat arg) (str_bytes ''Ahoj'')"
    using greeting_prefix [OF u(1,2)] u(3) by simp
  finally have g: "cstr (greeting (ucast arg) @ 0 # drop (unat arg + 1) stk) =
    take (unat arg) (str_bytes ''Ahoj'')" .
  show ?thesis
    using my_cmds [OF assms(1)] arg r g u(3)
    by (intro exI [of _ ?st]) (simp add: my_unlocked_ioctl_def delivered_def)
qed

theorem ioctl_set_then_read_witness:
  "\<exists>st1 out. my_unlocked_ioctl asm_generic (\<lambda>_ _. 0) 0x40042411 2 chardev_init = (Inr 0, st1, []) \<and>
     my_read st1 [9, 9, 9, 9, 9] (\<lambda>_ _. 0) 0x7000 1 = Ret (Inr 2, [(0x7000, out)]) \<and>
     cstr out = str_bytes ''Ah''"
proof -
  have "MY_WRITE asm_generic = 0x40042411"
    by (simp add: MY_WRITE_def asm_generic_def ioc_enc_def MY_IOC_MAGIC_val)
  then show ?thesis
    using ioctl_set_then_read [OF ioc_ok_asm_generic, where arg = 2 and stk = "[9, 9, 9, 9, 9]"
        and ctu = "\<lambda>_ _. 0" and st = chardev_init and buf = "0x7000" and cnt = 1 and p = 0]
    by (auto simp: str_bytes_def)
qed

text \<open>
  What an ioctl refuses: a command of another type or number with \<open>ENOTTY\<close>, a set command
  whose argument is not between 1 and 4 with \<open>EINVAL\<close>, a get command whose copy does not
  complete with \<open>EFAULT\<close>; everything else succeeds. Only a successful set changes the state.
\<close>

theorem ioctl_results:
  assumes "ioc_ok abi"
  shows "fst (my_unlocked_ioctl abi ctu cmd arg st) =
      (if IOC_TYPE abi cmd \<noteq> 36 \<or> IOC_NR abi cmd \<notin> {16, 17} then Inl ENOTTY
       else if cmd = MY_WRITE abi \<and> unat arg \<notin> {1..4} then Inl EINVAL
       else if cmd = MY_READ abi \<and> ctu arg (le32 (char_count st)) \<noteq> 0 then Inl EFAULT
       else Inr 0) \<and>
    fst (snd (my_unlocked_ioctl abi ctu cmd arg st)) =
      (if cmd = MY_WRITE abi \<and> unat arg \<in> {1..4} then st\<lparr>char_count := ucast arg\<rparr> else st)"
proof -
  have "(arg < 1 \<or> arg > 4) \<longleftrightarrow> unat arg \<notin> {1..4}"
    by (auto simp: word_less_nat_alt)
  with my_cmds [OF assms] show ?thesis
    by (auto simp: my_unlocked_ioctl_def Let_def MY_IOC_MAGIC_val)
qed

theorem ioctl_results_witness:
  "fst (my_unlocked_ioctl asm_generic (\<lambda>_ _. 0) 0x40042411 5 chardev_init) = Inl EINVAL"
  using ioctl_results [OF ioc_ok_asm_generic, where ctu = "\<lambda>_ _. 0" and cmd = "0x40042411"
      and arg = 5 and st = chardev_init]
  by (simp add: MY_WRITE_def asm_generic_def ioc_enc_def MY_IOC_MAGIC_val)

text \<open>
  Run by one process at a time, the read and the ioctl of homework 06 (which work on copies
  taken under a lock) do what those of homework 02 do, for every state, command, argument and
  outcome of the copy to user memory. The ioctl of homework 04 changes the same state, copies
  out the same bytes and returns the same errors, but a call that succeeds returns no value at
  all: it runs off the end of a function whose result the caller uses.
\<close>

theorem homework_versions_agree:
  "my_unlocked_ioctl_06 = my_unlocked_ioctl \<and> my_read_copy = my_read \<and>
   my_unlocked_ioctl_04 abi ctu cmd arg st =
     (case my_unlocked_ioctl abi ctu cmd arg st of
        (Inl e, st1, ws) \<Rightarrow> (Some (Inl e), st1, ws)
      | (Inr _, st1, ws) \<Rightarrow> (None, st1, ws))"
proof (intro conjI)
  show "my_unlocked_ioctl_06 = my_unlocked_ioctl"
    by (intro ext) (simp only: my_unlocked_ioctl_06_def my_unlocked_ioctl_def Let_def)
  show "my_read_copy = my_read"
    by (intro ext) (simp add: my_read_copy_def my_read_def my_read_loads_def Let_def)
  show "my_unlocked_ioctl_04 abi ctu cmd arg st =
     (case my_unlocked_ioctl abi ctu cmd arg st of
        (Inl e, st1, ws) \<Rightarrow> (Some (Inl e), st1, ws)
      | (Inr _, st1, ws) \<Rightarrow> (None, st1, ws))"
    by (auto simp: my_unlocked_ioctl_04_def my_unlocked_ioctl_def Let_def)
qed

text \<open>
  C11: A write whose data can be copied prints the user's bytes up to the first NUL, returns
  their number and frees its buffer; one whose copy fails returns \<open>EFAULT\<close> and keeps the
  buffer allocated.
\<close>

theorem my_write_prints_or_leaks:
  assumes "cfu_ok um cfu" and "kmalloc (cnt + 1) = str" and "str \<noteq> NULL"
    and "unat cnt + 1 < 2 ^ 64"
  shows "if fst (cfu buf (unat cnt)) = 0
    then my_write kmalloc cfu buf cnt = Ret (Inr cnt,
        [Kmalloc str, Printk (cstr (map (\<lambda>i. um (buf + of_nat i)) [0..<unat cnt])), Kfree str])
    else \<exists>tr. my_write kmalloc cfu buf cnt = Ret (Inl EFAULT, tr) \<and>
        kres_run tr {#} = Some {#Mem str#}"
proof -
  obtain nc bs where c: "cfu buf (unat cnt) = (nc, bs)" by (cases "cfu buf (unat cnt)")
  have "unat (cnt + 1) = unat cnt + 1" using assms(4) by (simp add: unat_word_ariths)
  then show ?thesis
    using c assms(2,3) cfu_ok_full [OF assms(1), of buf "unat cnt" bs]
    by (auto simp: my_write_def cstr_append_NUL)
qed

theorem my_write_prints_or_leaks_witness:
  "my_write (\<lambda>_. 0x5000) (cfu_all (\<lambda>_. 65)) 0x7000 2 =
     Ret (Inr 2, [Kmalloc 0x5000, Printk [65, 65], Kfree 0x5000])"
  using my_write_prints_or_leaks [OF cfu_ok_cfu_all, where kmalloc = "\<lambda>_. 0x5000" and cnt = 2 and um = "\<lambda>_. 65" and buf = "0x7000"]
  by (simp add: cfu_all_def cstr_def upt_conv_Cons)

end
