(* ===== verification/Char_Race.thy ===== *)
theory Char_Race
  imports Char_Device
begin

text \<open>
  The greeting device with several processes in it at once. The statement \<open>count++\<close> is a load
  and a store, a read loads \<open>char_count\<close>, and other processes may run in between: homework 03
  takes no lock around the counter and homework 02 none around the integer, homeworks 04 and
  06 take spinlocks.
\<close>

section \<open>The counter of open instances\<close>

datatype count_op = Count_open | Count_release

text \<open>The load into a register, then the store of the changed value.\<close>

definition count_micro :: "count_op \<Rightarrow> (u32 \<times> u32 \<Rightarrow> u32 \<times> u32) list" where
  "count_micro op =
     [\<lambda>(n, r). (n, n),
      \<lambda>(n, r). (case op of Count_open \<Rightarrow> r + 1 | Count_release \<Rightarrow> r - 1, r)]"

fun count_atomic :: "count_op \<Rightarrow> u32 \<Rightarrow> u32 \<times> u32" where
  "count_atomic Count_open n = (n + 1, n)"
| "count_atomic Count_release n = (n - 1, n)"

interpretation counter: locked_op count_micro "\<lambda>_. 0" count_atomic
proof
  show "fold (\<lambda>f. f) (count_micro op) (s, 0) = count_atomic op s" for op s
    by (cases op) (simp_all add: count_micro_def)
qed

text \<open>The sequential handler an operation stands for.\<close>

fun count_handler :: "count_op \<Rightarrow> chardev \<Rightarrow> chardev" where
  "count_handler Count_open st = snd (my_open st)"
| "count_handler Count_release st = snd (my_release st)"

lemma count_atomic_handler:
  "fst (count_atomic op (open_count st)) = open_count (count_handler op st)"
  by (cases op) (simp_all add: my_open_def my_release_def)

lemma replay_count:
  "replay count_atomic h (open_count st) = Some n \<Longrightarrow>
   n = open_count (fold (\<lambda>(op, r). count_handler op) h st)"
proof (induction h arbitrary: st)
  case Nil
  then show ?case by simp
next
  case (Cons x h)
  obtain op r where "x = (op, r)" by (cases x)
  with Cons show ?case by (auto simp: count_atomic_handler split: if_splits)
qed

section \<open>The integer behind the greeting\<close>

datatype char_op = Op_set u64 | Op_read

text \<open>
  The pair in a reader's variables is what the switch and the return statement see: two loads
  in homework 02, one load under the lock in homework 06. A set stores only an argument that
  the range check lets through.
\<close>

definition set_micro :: "u64 \<Rightarrow> (u32 \<times> u32 \<times> u32 \<Rightarrow> u32 \<times> u32 \<times> u32) list" where
  "set_micro arg = (if arg < 1 \<or> arg > 4 then [] else [\<lambda>(c, r). (ucast arg, r)])"

fun char_micro_02 :: "char_op \<Rightarrow> (u32 \<times> u32 \<times> u32 \<Rightarrow> u32 \<times> u32 \<times> u32) list" where
  "char_micro_02 (Op_set arg) = set_micro arg"
| "char_micro_02 Op_read = [\<lambda>(c, a, b). (c, c, b), \<lambda>(c, a, b). (c, a, c)]"

fun char_micro_06 :: "char_op \<Rightarrow> (u32 \<times> u32 \<times> u32 \<Rightarrow> u32 \<times> u32 \<times> u32) list" where
  "char_micro_06 (Op_set arg) = set_micro arg"
| "char_micro_06 Op_read = [\<lambda>(c, a, b). (c, c, c)]"

fun char_atomic :: "char_op \<Rightarrow> u32 \<Rightarrow> u32 \<times> u32 \<times> u32" where
  "char_atomic (Op_set arg) c = (if arg < 1 \<or> arg > 4 then c else ucast arg, 0, 0)"
| "char_atomic Op_read c = (c, c, c)"

interpretation char_value: locked_op char_micro_06 "\<lambda>_. (0, 0)" char_atomic
proof
  show "fold (\<lambda>f. f) (char_micro_06 op) (s, 0, 0) = char_atomic op s" for op s
    by (cases op) (simp_all add: set_micro_def)
qed

lemma char_atomic_keeps: "1 \<le> c \<and> c \<le> 4 \<Longrightarrow> 1 \<le> fst (char_atomic op c) \<and> fst (char_atomic op c) \<le> 4"
  by (cases op) (auto simp: ucast_one_to_four)

section \<open>Properties\<close>



text \<open>
  Homework 03, where the same counter is changed without a lock, loses updates: two
  processes can both have finished opening the device and the counter be 1.
\<close>

theorem open_count_lost_update:
  "\<exists>c. race_reach count_micro (\<lambda>_. 0) (open_count chardev_init) c \<and>
     pcs c 0 = Idle \<and> pcs c 1 = Idle \<and>
     map fst (hist c) = [Count_open, Count_open] \<and> shared c = 1"
proof -
  let ?c = "fold (race_do count_micro (\<lambda>_. 0))
    (map (\<lambda>t. (t, Count_open)) [0, 1, 0, 1, 0, 1, 0, 1]) (threads_start 0)"
  have "race_reach count_micro (\<lambda>_. 0) (open_count chardev_init) ?c"
    unfolding chardev_init_def chardev.simps by (rule race_schedule)
  moreover have "pcs ?c 0 = Idle \<and> pcs ?c 1 = Idle \<and>
      map fst (hist ?c) = [Count_open, Count_open] \<and> shared ?c = 1"
    by code_simp
  ultimately show ?thesis by (intro exI [of _ ?c] conjI) (assumption | elim conjE)+
qed



text \<open>
  Homework 02, where the read loads the integer twice and takes no lock: an ioctl between
  the two loads makes the read return 4 for the one-letter string.
\<close>

theorem char_read_torn:
  "\<exists>c a b. race_reach char_micro_02 (\<lambda>_. (0, 0)) (char_count chardev_init) c \<and>
     (Op_read, a, b) \<in> set (hist c) \<and>
     my_read_loads a b [7, 7, 7, 7, 7] (\<lambda>_ _. 0) 0x7000 5 =
       Ret (Inr 4, [(0x7000, str_bytes ''A'' @ [0, 7, 7, 7])])"
proof -
  let ?c = "fold (race_do char_micro_02 (\<lambda>_. (0, 0)))
    [(0, Op_set 1), (0, Op_read), (0, Op_read), (1, Op_read), (1, Op_read), (0, Op_set 4),
     (0, Op_read), (1, Op_read), (1, Op_read)] (threads_start 4)"
  have "race_reach char_micro_02 (\<lambda>_. (0, 0)) (char_count chardev_init) ?c"
    unfolding chardev_init_def chardev.simps by (rule race_schedule)
  moreover have "hist ?c = [(Op_set 1, 0, 0), (Op_read, 1, 4)]" by code_simp
  ultimately obtain c where c: "race_reach char_micro_02 (\<lambda>_. (0, 0)) (char_count chardev_init) c"
    "hist c = [(Op_set 1, 0, 0), (Op_read, 1, 4)]" by (rule that)
  have "my_read_loads 1 4 [7, 7, 7, 7, 7] (\<lambda>_ _. 0) 0x7000 5 =
       Ret (Inr 4, [(0x7000, str_bytes ''A'' @ [0, 7, 7, 7])])"
    by (simp add: my_read_loads_def greeting_def strcpy_def blit_def delivered_def str_bytes_def)
  with c show ?thesis by (intro exI [of _ c] exI [of _ 1] exI [of _ 4] conjI) simp_all
qed

end
