(* ===== verification/Mmap_Device.thy ===== *)
theory Mmap_Device
  imports Kernel
begin

text \<open>
  The memory-mapped device of homework 10, \<open>10/homework/pb173.c\<close>: four pages, two of them
  read-only, mapped two at a time, and the program \<open>10/pb173.c\<close> that maps and uses them. The
  page behind a kernel address is an argument of the model (\<open>virt_to_page\<close>, a number), the
  content of the pages is a map from their numbers to bytes. The other file operations of the
  module are in \<open>Hw03\<close>.
\<close>

section \<open>The module\<close>

record mmap_mem =
  mem1 :: addr
  mem2 :: addr
  mem3 :: addr
  mem4 :: addr

type_synonym ram = "nat \<Rightarrow> byte list"

definition my_find_page :: "(addr \<Rightarrow> nat) \<Rightarrow> mmap_mem \<Rightarrow> u64 \<Rightarrow> nat option" where
  "my_find_page virt_to_page m offset =
     (if 0 \<le> offset \<and> offset < PAGE_SIZE then Some (virt_to_page (mem1 m))
      else if PAGE_SIZE \<le> offset \<and> offset < 2 * PAGE_SIZE then Some (virt_to_page (mem2 m))
      else if PAGE_SIZE \<le> offset \<and> offset < 3 * PAGE_SIZE then Some (virt_to_page (mem3 m))
      else if PAGE_SIZE \<le> offset \<and> offset < 4 * PAGE_SIZE then Some (virt_to_page (mem4 m))
      else None)"

text \<open>The page the process gets, or \<open>VM_FAULT_SIGBUS\<close>; the shift of the page offset wraps.\<close>

datatype vm_fault = VM_FAULT_SIGBUS | Fault_page nat

definition my_fault :: "(addr \<Rightarrow> nat) \<Rightarrow> mmap_mem \<Rightarrow> u64 \<Rightarrow> vm_fault" where
  "my_fault virt_to_page m pgoff =
     (case my_find_page virt_to_page m (push_bit 12 pgoff) of
        None \<Rightarrow> VM_FAULT_SIGBUS | Some page \<Rightarrow> Fault_page page)"

definition my_mmap_10 :: "vm_area \<Rightarrow> errno + unit" where
  "my_mmap_10 vma =
     (let pgoff = vm_pgoff vma; rw = vm_flags vma AND (VM_WRITE OR VM_READ)
      in if 2 * PAGE_SIZE < vm_end vma - vm_start vma then Inl EINVAL
         else if pgoff < 0 \<or> 4 < pgoff then Inl EINVAL
         else if 0 \<le> pgoff \<and> pgoff < 2 \<and> rw \<noteq> VM_READ then Inl EINVAL
         else if 2 \<le> pgoff \<and> pgoff < 4 \<and> rw \<noteq> (VM_READ OR VM_WRITE) then Inl EINVAL
         else Inr ())"

text \<open>
  Load: the results of \<open>misc_register\<close> and of the debugfs calls are ignored, and the pages are
  written without a check that there are any.
\<close>

definition store_str :: "(addr \<Rightarrow> nat) \<Rightarrow> addr \<Rightarrow> string \<Rightarrow> ram \<Rightarrow> ram exec" where
  "store_str virt_to_page a s ram =
     (if a = NULL then Fault
      else exec_bind (strcpy (ram (virt_to_page a)) (str_bytes s))
             (\<lambda>b. Ret (ram(virt_to_page a := b))))"

definition my_init_10 ::
  "(addr \<Rightarrow> nat) \<Rightarrow> int \<Rightarrow> addr \<Rightarrow> addr \<Rightarrow> addr \<Rightarrow> mmap_mem \<Rightarrow> ram \<Rightarrow> (kcall list \<times> ram) exec" where
  "my_init_10 virt_to_page misc debug_dir counter_file bindata_file m ram =
     exec_bind (store_str virt_to_page (mem1 m) ''1st page'' ram) (\<lambda>ram.
     exec_bind (store_str virt_to_page (mem2 m) ''2nd page'' ram) (\<lambda>ram.
     exec_bind (store_str virt_to_page (mem3 m) ''3rd page'' ram) (\<lambda>ram.
     exec_bind (store_str virt_to_page (mem4 m) ''4th page'' ram) (\<lambda>ram.
       Ret ([Misc_register 0 misc, Debugfs_create debug_dir, Debugfs_create counter_file,
             Debugfs_create bindata_file, Get_free_page (mem1 m), Get_free_page (mem2 m),
             Get_free_page (mem3 m), Get_free_page (mem4 m)], ram)))))"

definition my_exit_10 :: "addr \<Rightarrow> addr \<Rightarrow> addr \<Rightarrow> mmap_mem \<Rightarrow> kcall list" where
  "my_exit_10 debug_dir counter_file bindata_file m =
     [Free_page (mem1 m), Free_page (mem2 m), Free_page (mem3 m), Free_page (mem4 m),
      Misc_deregister 0, Debugfs_remove bindata_file, Debugfs_remove counter_file,
      Debugfs_remove debug_dir]"

section \<open>The program\<close>

text \<open>
  An access at byte \<open>off\<close> of a mapping faults the page in; \<open>None\<close> is the program killed by
  \<open>SIGBUS\<close>, by a write to a read-only mapping, or by an access outside the mapping.
\<close>

definition map_page :: "(addr \<Rightarrow> nat) \<Rightarrow> mmap_mem \<Rightarrow> vm_area \<Rightarrow> u64 \<Rightarrow> nat option" where
  "map_page virt_to_page m vma off =
     (if vm_end vma - vm_start vma \<le> off then None
      else case my_fault virt_to_page m (vm_pgoff vma + off div PAGE_SIZE) of
             VM_FAULT_SIGBUS \<Rightarrow> None | Fault_page page \<Rightarrow> Some page)"

definition map_puts :: "(addr \<Rightarrow> nat) \<Rightarrow> mmap_mem \<Rightarrow> vm_area \<Rightarrow> u64 \<Rightarrow> ram \<Rightarrow> byte list option" where
  "map_puts virt_to_page m vma off ram =
     map_option (\<lambda>page. cstr (drop (unat (off mod PAGE_SIZE)) (ram page)))
       (map_page virt_to_page m vma off)"

definition map_strcpy ::
  "(addr \<Rightarrow> nat) \<Rightarrow> mmap_mem \<Rightarrow> vm_area \<Rightarrow> u64 \<Rightarrow> string \<Rightarrow> ram \<Rightarrow> ram option" where
  "map_strcpy virt_to_page m vma off s ram =
     (if vm_flags vma AND VM_WRITE = 0 then None
      else map_option
        (\<lambda>page. ram(page := blit (ram page) (unat (off mod PAGE_SIZE)) (str_bytes s @ [0])))
        (map_page virt_to_page m vma off))"

text \<open>
  The run of \<open>main\<close> with the device opened: \<open>a1\<close> and \<open>a2\<close> are where the kernel puts the two
  mappings; the value is the lines printed, \<open>None\<close> for a run that stops before the end.
\<close>

definition user_main ::
  "(addr \<Rightarrow> nat) \<Rightarrow> mmap_mem \<Rightarrow> u64 \<Rightarrow> u64 \<Rightarrow> ram \<Rightarrow> (byte list list \<times> ram) option" where
  "user_main virt_to_page m a1 a2 ram =
     (let map1 = \<lparr>vm_start = a1, vm_end = a1 + PAGE_SIZE * 2, vm_pgoff = 0, vm_flags = VM_READ\<rparr>;
          map2 = \<lparr>vm_start = a2, vm_end = a2 + PAGE_SIZE * 2, vm_pgoff = 2,
                  vm_flags = VM_READ OR VM_WRITE\<rparr>
      in if my_mmap_10 map1 \<noteq> Inr () \<or> my_mmap_10 map2 \<noteq> Inr () then None else
         Option.bind (map_puts virt_to_page m map1 0 ram) (\<lambda>s1.
         Option.bind (map_puts virt_to_page m map1 PAGE_SIZE ram) (\<lambda>s2.
         Option.bind (map_puts virt_to_page m map2 0 ram) (\<lambda>s3.
         Option.bind (map_puts virt_to_page m map2 PAGE_SIZE ram) (\<lambda>s4.
         Option.bind (map_strcpy virt_to_page m map2 0 ''Hello1'' ram) (\<lambda>ram1.
         Option.bind (map_strcpy virt_to_page m map2 PAGE_SIZE ''Hello2'' ram1) (\<lambda>ram2.
         Option.bind (map_puts virt_to_page m map2 0 ram2) (\<lambda>s5.
         Option.bind (map_puts virt_to_page m map2 PAGE_SIZE ram2) (\<lambda>s6.
           Some ([str_bytes ''map1:'', s1, s2, str_bytes ''map2:'', s3, s4,
                  str_bytes ''modified map2:'', s5, s6], ram2))))))))))"

section \<open>Which page a fault gives\<close>

definition page_number :: "mmap_mem \<Rightarrow> nat \<Rightarrow> addr" where
  "page_number m k = [mem1 m, mem2 m, mem3 m, mem4 m] ! k"

lemma unat_shift_page: "unat (push_bit 12 (p :: u64)) = 4096 * (unat p mod 2 ^ 52)"
proof -
  have "unat (push_bit 12 p) = (unat p * 4096) mod 2 ^ 64"
    by (simp add: push_bit_eq_mult unat_word_ariths)
  also have "\<dots> = 4096 * (unat p mod 2 ^ 52)"
    using mult_mod_right [of 4096 "unat p" "2 ^ 52"] by (simp add: mult.commute)
  finally show ?thesis .
qed

lemma my_fault_page:
  "my_fault virt_to_page m pgoff =
     (if unat pgoff mod 2 ^ 52 < 4
      then Fault_page (virt_to_page (page_number m (unat pgoff mod 2 ^ 52))) else VM_FAULT_SIGBUS)"
proof -
  let ?o = "push_bit 12 pgoff" and ?k = "unat pgoff mod 2 ^ 52"
  have o: "unat ?o = 4096 * ?k" by (rule unat_shift_page)
  have lt: "?o < 4096 * n \<longleftrightarrow> 4096 * ?k < unat (4096 * n)" for n
    by (simp only: word_less_nat_alt o)
  have le: "4096 \<le> ?o \<longleftrightarrow> 4096 \<le> 4096 * ?k" by (simp add: word_le_nat_alt o)
  have cmp: "?o < 4096 \<longleftrightarrow> ?k = 0" "?o < 8192 \<longleftrightarrow> ?k < 2" "?o < 12288 \<longleftrightarrow> ?k < 3"
    "?o < 16384 \<longleftrightarrow> ?k < 4" "4096 \<le> ?o \<longleftrightarrow> 0 < ?k"
    using lt [of 1] lt [of 2] lt [of 3] lt [of 4] le by (simp_all add: Suc_le_eq)
  consider "?k = 0" | "?k = 1" | "?k = 2" | "?k = 3" | "4 \<le> ?k" by linarith
  then show ?thesis
    by cases
      (simp_all add: my_fault_def my_find_page_def PAGE_SIZE_def cmp page_number_def
        del: push_bit_numeral)
qed

lemma page_index:
  assumes "vm_end vma - vm_start vma \<le> 2 * PAGE_SIZE" and "off < vm_end vma - vm_start vma"
  shows "unat (off div PAGE_SIZE) < 2"
proof -
  from assms have "unat off < 8192"
    by (simp add: PAGE_SIZE_def word_le_nat_alt word_less_nat_alt)
  then show ?thesis by (simp add: PAGE_SIZE_def unat_div less_mult_imp_div_less)
qed

lemma cstr_blit: "0 \<notin> set s \<Longrightarrow> cstr (blit b 0 (s @ [0])) = s"
proof -
  assume "0 \<notin> set s"
  then have "takeWhile (\<lambda>b. b \<noteq> 0) (s @ 0 # r) = s" for r
    by (induction s) auto
  then show ?thesis by (simp add: cstr_def blit_def)
qed

lemma mmap_write_pages:
  assumes "my_mmap_10 vma = Inr ()" and "vm_flags vma AND VM_WRITE \<noteq> 0"
  shows "2 \<le> unat (vm_pgoff vma)"
proof (rule ccontr)
  assume "\<not> 2 \<le> unat (vm_pgoff vma)"
  with assms(1) have "vm_flags vma AND (VM_WRITE OR VM_READ) = VM_READ"
    by (auto simp: my_mmap_10_def Let_def word_less_nat_alt split: if_splits)
  then have "(vm_flags vma AND (VM_WRITE OR VM_READ)) AND VM_WRITE = VM_READ AND VM_WRITE" by simp
  then have "vm_flags vma AND VM_WRITE = 0"
    by (simp add: VM_READ_def VM_WRITE_def and.assoc)
  with assms(2) show False by simp
qed

lemma map_page_number:
  assumes "unat (vm_pgoff vma) \<le> 4" and "vm_end vma - vm_start vma \<le> 2 * PAGE_SIZE"
    and "off < vm_end vma - vm_start vma" and "k = unat (vm_pgoff vma) + unat off div 4096"
  shows "map_page virt_to_page m vma off =
    (if k < 4 then Some (virt_to_page (page_number m k)) else None)"
proof -
  have u: "unat (off div PAGE_SIZE) = unat off div 4096" by (simp add: PAGE_SIZE_def unat_div)
  with page_index [OF assms(2,3)] have "unat off div 4096 < 2" by simp
  with u assms(1,4) have "unat (vm_pgoff vma + off div PAGE_SIZE) = k" "k mod 2 ^ 52 = k"
    by (simp_all add: unat_word_ariths)
  moreover have "\<not> vm_end vma - vm_start vma \<le> off" using assms(3) by simp
  ultimately show ?thesis by (simp add: map_page_def my_fault_page)
qed

lemma store_str_Ret:
  "a \<noteq> NULL \<Longrightarrow> length (ram (v a)) = 4096 \<Longrightarrow> length s < 4096 \<Longrightarrow>
   store_str v a s ram = Ret (ram(v a := blit (ram (v a)) 0 (str_bytes s @ [0])))"
  by (simp add: store_str_def strcpy_def)

lemma map_page_four:
  assumes "vm_end vma - vm_start vma = 2 * PAGE_SIZE"
  shows "vm_pgoff vma = 0 \<Longrightarrow> map_page v m vma 0 = Some (v (mem1 m))"
    and "vm_pgoff vma = 0 \<Longrightarrow> map_page v m vma PAGE_SIZE = Some (v (mem2 m))"
    and "vm_pgoff vma = 2 \<Longrightarrow> map_page v m vma 0 = Some (v (mem3 m))"
    and "vm_pgoff vma = 2 \<Longrightarrow> map_page v m vma PAGE_SIZE = Some (v (mem4 m))"
  using assms by (simp_all add: map_page_number [OF _ _ _ refl] PAGE_SIZE_def page_number_def)

section \<open>Properties\<close>

text \<open>
  C31: An admitted mapping covers at most two pages; an access inside it reaches the page of the
  four its position says and gets a bus error past the fourth (which the check of the offset,
  one too generous, lets through), and through a mapping that allows writing only the third
  and the fourth page are ever reached.
\<close>

theorem mmap_pages:
  assumes "my_mmap_10 vma = Inr ()" and "off < vm_end vma - vm_start vma"
  shows "unat off < 2 * 4096 \<and>
    map_page virt_to_page m vma off =
      (let k = unat (vm_pgoff vma) + unat off div 4096
       in if k < 4 then Some (virt_to_page (page_number m k)) else None) \<and>
    (vm_flags vma AND VM_WRITE \<noteq> 0 \<longrightarrow>
       map_page virt_to_page m vma off \<in>
         {Some (virt_to_page (mem3 m)), Some (virt_to_page (mem4 m)), None})"
proof -
  let ?k = "unat (vm_pgoff vma) + unat off div 4096"
  from assms(1) have v: "vm_pgoff vma \<le> 4" "vm_end vma - vm_start vma \<le> 2 * PAGE_SIZE"
    by (auto simp: my_mmap_10_def Let_def not_less split: if_splits)
  from v(1) have v1: "unat (vm_pgoff vma) \<le> 4" by (simp add: word_le_nat_alt)
  from v(2) assms(2) have "unat off < 8192"
    by (simp add: PAGE_SIZE_def word_le_nat_alt word_less_nat_alt)
  moreover have pg: "map_page virt_to_page m vma off =
      (if ?k < 4 then Some (virt_to_page (page_number m ?k)) else None)"
    by (rule map_page_number [OF v1 v(2) assms(2) refl])
  moreover have "map_page virt_to_page m vma off \<in>
      {Some (virt_to_page (mem3 m)), Some (virt_to_page (mem4 m)), None}"
    if "vm_flags vma AND VM_WRITE \<noteq> 0"
  proof -
    have "2 \<le> ?k" using mmap_write_pages [OF assms(1) that] by simp
    then consider "?k = 2" | "?k = 3" | "4 \<le> ?k" by linarith
    then show ?thesis by cases (simp_all add: pg page_number_def)
  qed
  ultimately show ?thesis by (simp add: Let_def)
qed

theorem mmap_pages_witness:
  "map_page unat \<lparr>mem1 = 0x1000, mem2 = 0x2000, mem3 = 0x3000, mem4 = 0x4000\<rparr>
     \<lparr>vm_start = 0x7000, vm_end = 0x9000, vm_pgoff = 3, vm_flags = 3\<rparr> 0x1001 = None"
proof -
  let ?v = "\<lparr>vm_start = 0x7000, vm_end = 0x9000, vm_pgoff = 3, vm_flags = 3\<rparr> :: vm_area"
  have "my_mmap_10 ?v = Inr ()"
    by (simp add: my_mmap_10_def PAGE_SIZE_def VM_READ_def VM_WRITE_def Let_def)
  from mmap_pages [OF this, of "0x1001"] show ?thesis by (simp add: Let_def)
qed

text \<open>
  C32: Load and use together: with four pages, the program prints the strings the module wrote
  into them, in the order of the pages, then reads back what it wrote itself; its writes end
  up in the third and fourth page and leave the first two alone.
\<close>

theorem user_main_prints:
  assumes "distinct (map v [mem1 m, mem2 m, mem3 m, mem4 m])"
    and "NULL \<notin> {mem1 m, mem2 m, mem3 m, mem4 m}"
    and "\<forall>a \<in> {mem1 m, mem2 m, mem3 m, mem4 m}. length (ram (v a)) = 4096"
    and "my_init_10 v misc dir ctr bin m ram = Ret (tr, ram1)"
  shows "\<exists>ram2. user_main v m a1 a2 ram1 =
      Some (map str_bytes [''map1:'', ''1st page'', ''2nd page'', ''map2:'', ''3rd page'',
        ''4th page'', ''modified map2:'', ''Hello1'', ''Hello2''], ram2) \<and>
    (\<forall>pg. pg \<noteq> v (mem3 m) \<longrightarrow> pg \<noteq> v (mem4 m) \<longrightarrow> ram2 pg = ram1 pg) \<and>
    cstr (ram2 (v (mem3 m))) = str_bytes ''Hello1'' \<and> cstr (ram2 (v (mem4 m))) = str_bytes ''Hello2''"
proof -
  let ?m1 = "\<lparr>vm_start = a1, vm_end = a1 + PAGE_SIZE * 2, vm_pgoff = 0, vm_flags = VM_READ\<rparr>"
  let ?m2 = "\<lparr>vm_start = a2, vm_end = a2 + PAGE_SIZE * 2, vm_pgoff = 2,
    vm_flags = VM_READ OR VM_WRITE\<rparr>"
  have d: "v (mem1 m) \<noteq> v (mem2 m)" "v (mem1 m) \<noteq> v (mem3 m)" "v (mem1 m) \<noteq> v (mem4 m)"
    "v (mem2 m) \<noteq> v (mem3 m)" "v (mem2 m) \<noteq> v (mem4 m)" "v (mem3 m) \<noteq> v (mem4 m)"
    using assms(1) by auto
  have r: "ram1 (v (mem1 m)) = blit (ram (v (mem1 m))) 0 (str_bytes ''1st page'' @ [0])"
    "ram1 (v (mem2 m)) = blit (ram (v (mem2 m))) 0 (str_bytes ''2nd page'' @ [0])"
    "ram1 (v (mem3 m)) = blit (ram (v (mem3 m))) 0 (str_bytes ''3rd page'' @ [0])"
    "ram1 (v (mem4 m)) = blit (ram (v (mem4 m))) 0 (str_bytes ''4th page'' @ [0])"
    using assms(2-4) d by (auto simp: my_init_10_def store_str_Ret)
  have mm: "my_mmap_10 ?m1 = Inr ()" "my_mmap_10 ?m2 = Inr ()"
    by (simp_all add: my_mmap_10_def PAGE_SIZE_def VM_READ_def VM_WRITE_def Let_def)
  have w: "vm_flags ?m2 AND VM_WRITE \<noteq> 0" by (simp add: VM_READ_def VM_WRITE_def)
  have nz: "0 \<notin> set (str_bytes s)" if "s \<in> {''1st page'', ''2nd page'', ''3rd page'', ''4th page'',
      ''Hello1'', ''Hello2''}" for s using that by (auto simp: str_bytes_def)
  have p1: "map_page v m ?m1 0 = Some (v (mem1 m))" "map_page v m ?m1 PAGE_SIZE = Some (v (mem2 m))"
    and p2: "map_page v m ?m2 0 = Some (v (mem3 m))" "map_page v m ?m2 PAGE_SIZE = Some (v (mem4 m))"
    by (rule map_page_four; simp add: mult.commute)+
  let ?ram2 = "ram1(v (mem3 m) := blit (ram1 (v (mem3 m))) 0 (str_bytes ''Hello1'' @ [0]),
    v (mem4 m) := blit (ram1 (v (mem4 m))) 0 (str_bytes ''Hello2'' @ [0]))"
  have "user_main v m a1 a2 ram1 = Some (map str_bytes [''map1:'', ''1st page'', ''2nd page'',
      ''map2:'', ''3rd page'', ''4th page'', ''modified map2:'', ''Hello1'', ''Hello2''], ?ram2)"
    using mm w d by (simp add: user_main_def map_puts_def map_strcpy_def p1 p2 r cstr_blit nz Let_def)
  then show ?thesis using d by (intro exI [of _ ?ram2]) (simp add: cstr_blit nz)
qed

theorem user_main_prints_witness:
  "\<exists>tr ram1 ram2. my_init_10 unat 0 0x10 0x20 0x30
      \<lparr>mem1 = 0x1000, mem2 = 0x2000, mem3 = 0x3000, mem4 = 0x4000\<rparr> (\<lambda>_. replicate 4096 7) =
      Ret (tr, ram1) \<and>
    user_main unat \<lparr>mem1 = 0x1000, mem2 = 0x2000, mem3 = 0x3000, mem4 = 0x4000\<rparr> 0x70000 0x80000
      ram1 = Some (map str_bytes [''map1:'', ''1st page'', ''2nd page'', ''map2:'', ''3rd page'',
        ''4th page'', ''modified map2:'', ''Hello1'', ''Hello2''], ram2)"
proof -
  let ?m = "\<lparr>mem1 = 0x1000, mem2 = 0x2000, mem3 = 0x3000, mem4 = 0x4000\<rparr> :: mmap_mem"
  obtain tr ram1 where i: "my_init_10 unat 0 0x10 0x20 0x30 ?m (\<lambda>_. replicate 4096 7) =
      Ret (tr, ram1)" by (auto simp: my_init_10_def store_str_Ret)
  from user_main_prints [OF _ _ _ i, of "0x70000" "0x80000"] i show ?thesis by auto
qed

end
