(* ===== verification/Module_Files.thy ===== *)
theory Module_Files
  imports Kernel "HOL-Library.State_Monad"
begin

text \<open>
  A module as a whole: its handlers written in a state monad over the module's globals and the
  list of what they do that others can notice, its tables of file operations, and the calls the
  virtual file system makes on behalf of processes. The locales hold what can be shown once for
  every module: that no call does what its context forbids, and that a counter of the module
  counts the files open on it.
\<close>

section \<open>Events and contexts\<close>

text \<open>
  \<open>Sleep\<close> is anything that may put the process to sleep (an allocation with \<open>GFP_KERNEL\<close>, a copy
  to or from user memory, \<open>msleep\<close>); \<open>Wild\<close> is an access outside the memory the module has.
\<close>

datatype event =
    Spin_lock string | Spin_unlock string | Mutex_lock string | Mutex_unlock string
  | Sleep | Call kcall | To_user addr "byte list" | Wild

text \<open>
  The spinlocks and the mutexes held, innermost first. Under a spinlock nothing may sleep, a
  lock held is not taken again, only the innermost one is released, and nothing is \<open>Wild\<close>.
\<close>

type_synonym ctx = "string list \<times> string list"

fun ctx_step :: "event \<Rightarrow> ctx \<Rightarrow> ctx option" where
  "ctx_step (Spin_lock l) (sp, mu) = (if l \<in> set sp then None else Some (l # sp, mu))"
| "ctx_step (Spin_unlock l) (sp, mu) = (if sp \<noteq> [] \<and> hd sp = l then Some (tl sp, mu) else None)"
| "ctx_step (Mutex_lock l) (sp, mu) =
     (if sp \<noteq> [] \<or> l \<in> set mu then None else Some (sp, l # mu))"
| "ctx_step (Mutex_unlock l) (sp, mu) = (if mu \<noteq> [] \<and> hd mu = l then Some (sp, tl mu) else None)"
| "ctx_step Sleep (sp, mu) = (if sp \<noteq> [] then None else Some (sp, mu))"
| "ctx_step (Call c) (sp, mu) = Some (sp, mu)"
| "ctx_step (To_user a bs) (sp, mu) = Some (sp, mu)"
| "ctx_step Wild (sp, mu) = None"

fun ctx_run :: "event list \<Rightarrow> ctx \<Rightarrow> ctx option" where
  "ctx_run [] c = Some c"
| "ctx_run (ev # evs) c = (case ctx_step ev c of None \<Rightarrow> None | Some c1 \<Rightarrow> ctx_run evs c1)"

lemma ctx_run_append:
  "ctx_run (xs @ ys) c = (case ctx_run xs c of None \<Rightarrow> None | Some c1 \<Rightarrow> ctx_run ys c1)"
  by (induction xs arbitrary: c) (auto split: option.splits)

lemma ctx_run_sleeps [simp]: "ctx_run (replicate n Sleep) ([], mu) = Some ([], mu)"
  by (induction n) simp_all

text \<open>From no locks to no locks, with nothing forbidden in between.\<close>

definition allowed :: "event list \<Rightarrow> bool" where
  "allowed evs \<longleftrightarrow> ctx_run evs ([], []) = Some ([], [])"

lemma allowed_Nil [simp]: "allowed []"
  by (simp add: allowed_def)

lemma allowed_append: "allowed xs \<Longrightarrow> allowed ys \<Longrightarrow> allowed (xs @ ys)"
  by (simp add: allowed_def ctx_run_append)

text \<open>The kernel calls among the events, for the accounting of resources.\<close>

definition calls :: "event list \<Rightarrow> kcall list" where
  "calls evs = [c. Call c \<leftarrow> evs]"

definition user_out :: "event list \<Rightarrow> user_writes" where
  "user_out evs = [(a, bs). To_user a bs \<leftarrow> evs]"

lemma calls_simps [simp]:
  "calls [] = []" "calls (xs @ ys) = calls xs @ calls ys"
  "calls (ev # evs) = (case ev of Call c \<Rightarrow> c # calls evs | _ \<Rightarrow> calls evs)"
  "calls (replicate n Sleep) = []"
  by (auto simp: calls_def split: event.split)

lemma user_out_simps [simp]:
  "user_out [] = []" "user_out (xs @ ys) = user_out xs @ user_out ys"
  "user_out (ev # evs) = (case ev of To_user a bs \<Rightarrow> (a, bs) # user_out evs | _ \<Rightarrow> user_out evs)"
  "user_out (replicate n Sleep) = []"
  by (auto simp: user_out_def split: event.split)

text \<open>Allowed and without kernel calls; calls that give back all they take.\<close>

definition quiet :: "event list \<Rightarrow> bool" where
  "quiet evs \<longleftrightarrow> allowed evs \<and> calls evs = []"

definition neutral :: "event list \<Rightarrow> bool" where
  "neutral evs \<longleftrightarrow> (\<forall>H. \<not> callbacks_live H \<longrightarrow> kres_run (calls evs) H = Some H)"

lemma kmalloc_kfree_neutral:
  "calls evs = [Kmalloc p, Printk bs, Kfree p] \<Longrightarrow> p \<noteq> NULL \<Longrightarrow> neutral evs"
  by (auto simp: neutral_def accounting Bex_def)

lemma neutral_Nil: "neutral []"
  by (simp add: neutral_def)

lemma neutral_append: "neutral xs \<Longrightarrow> neutral ys \<Longrightarrow> neutral (xs @ ys)"
  by (simp add: neutral_def kres_run_append)

lemma quietD: "quiet evs \<Longrightarrow> allowed evs" "quiet evs \<Longrightarrow> neutral evs"
  by (simp_all add: quiet_def neutral_def)

lemma quiet_Nil [simp]: "quiet []"
  by (simp add: quiet_def)

lemma quiet_append: "quiet xs \<Longrightarrow> quiet ys \<Longrightarrow> quiet (xs @ ys)"
  by (simp add: quiet_def allowed_append)

section \<open>Handlers\<close>

record 's machine =
  globals :: 's
  events :: "event list"

type_synonym ('s, 'a) handler = "('s machine, 'a) state"

definition emit :: "event list \<Rightarrow> ('s, unit) handler" where
  "emit evs = State (\<lambda>m. ((), m\<lparr>events := events m @ evs\<rparr>))"

definition load :: "('s \<Rightarrow> 'a) \<Rightarrow> ('s, 'a) handler" where
  "load f = State (\<lambda>m. (f (globals m), m))"

definition store :: "('s \<Rightarrow> 's) \<Rightarrow> ('s, unit) handler" where
  "store f = State (\<lambda>m. ((), m\<lparr>globals := f (globals m)\<rparr>))"

lemma run_basic [simp]:
  "run_state (emit evs) m = ((), m\<lparr>events := events m @ evs\<rparr>)"
  "run_state (load f) m = (f (globals m), m)"
  "run_state (store h) m = ((), m\<lparr>globals := h (globals m)\<rparr>)"
  by (simp_all add: emit_def load_def store_def)

abbreviation spin_lock :: "string \<Rightarrow> ('s, unit) handler" where
  "spin_lock l \<equiv> emit [Spin_lock l]"
abbreviation spin_unlock :: "string \<Rightarrow> ('s, unit) handler" where
  "spin_unlock l \<equiv> emit [Spin_unlock l]"
abbreviation mutex_lock :: "string \<Rightarrow> ('s, unit) handler" where
  "mutex_lock l \<equiv> emit [Mutex_lock l]"
abbreviation mutex_unlock :: "string \<Rightarrow> ('s, unit) handler" where
  "mutex_unlock l \<equiv> emit [Mutex_unlock l]"
abbreviation msleep :: "('s, unit) handler" where
  "msleep \<equiv> emit [Sleep]"
abbreviation wild :: "('s, unit) handler" where
  "wild \<equiv> emit [Wild]"

text \<open>
  What the kernel answers to the calls of one handler: the allocator, user memory, the copies
  between user memory and a buffer, and what the handler's local array held.
\<close>

record env =
  e_kmalloc :: "u64 \<Rightarrow> addr"
  e_cfu :: copy_from_user
  e_ctu :: copy_to_user
  e_srfb :: simple_read
  e_swtb :: simple_write
  e_stk :: "byte list"

definition env_ok :: "env \<Rightarrow> bool" where
  "env_ok e \<longleftrightarrow> (\<forall>n. e_kmalloc e n \<noteq> NULL) \<and> (\<exists>um. cfu_ok um (e_cfu e)) \<and> srfb_ok (e_srfb e) \<and>
     swtb_ok (e_swtb e) \<and> length (e_stk e) = 5"

text \<open>The same, and user memory can be read.\<close>

definition env_full :: "env \<Rightarrow> bool" where
  "env_full e \<longleftrightarrow> env_ok e \<and> (\<forall>a n. fst (e_cfu e a n) = 0)"

lemma env_full_ok: "env_full e \<Longrightarrow> env_ok e"
  by (simp add: env_full_def)

definition env_all :: "byte \<Rightarrow> env" where
  "env_all v = \<lparr>e_kmalloc = \<lambda>_. 0x5000, e_cfu = cfu_all (\<lambda>_. v), e_ctu = \<lambda>_ _. 0,
     e_srfb = srfb_all, e_swtb = swtb_fill v, e_stk = replicate 5 0\<rparr>"

lemma env_ok_all: "env_ok (env_all v)"
  by (auto simp: env_ok_def env_all_def srfb_ok_all swtb_ok_fill intro: cfu_ok_cfu_all)

lemma env_full_all: "env_full (env_all v)"
  by (simp add: env_full_def env_ok_all) (simp add: env_all_def cfu_all_def)

definition kmalloc :: "env \<Rightarrow> u64 \<Rightarrow> ('s, addr) handler" where
  "kmalloc e n = do { emit [Sleep, Call (Kmalloc (e_kmalloc e n))]; State_Monad.return (e_kmalloc e n) }"

definition copy_in :: "env \<Rightarrow> addr \<Rightarrow> nat \<Rightarrow> ('s, nat \<times> byte list) handler" where
  "copy_in e buf n = do { emit [Sleep]; State_Monad.return (e_cfu e buf n) }"

definition copy_out :: "env \<Rightarrow> addr \<Rightarrow> byte list \<Rightarrow> ('s, nat) handler" where
  "copy_out e buf bs = do {
     emit [Sleep, To_user buf (take (length bs - e_ctu e buf bs) bs)];
     State_Monad.return (e_ctu e buf bs) }"

text \<open>\<open>simple_read_from_buffer\<close> and \<open>simple_write_to_buffer\<close>: the result and the offset.\<close>

definition out_events :: "user_writes \<Rightarrow> event list" where
  "out_events ws = Sleep # map (\<lambda>(a, bs). To_user a bs) ws"

definition buf_out :: "env \<Rightarrow> addr \<Rightarrow> u64 \<Rightarrow> u64 \<Rightarrow> byte list \<Rightarrow> ('s, (errno + int) \<times> u64) handler" where
  "buf_out e buf cnt off from =
     (case e_srfb e buf cnt off from of (r, off1, ws) \<Rightarrow> do {
        emit (out_events ws);
        State_Monad.return (map_sum id sint r, off1) })"

definition buf_in ::
  "env \<Rightarrow> addr \<Rightarrow> u64 \<Rightarrow> u64 \<Rightarrow> byte list \<Rightarrow> nat \<Rightarrow> ('s, (errno + int) \<times> u64 \<times> byte list) handler" where
  "buf_in e buf cnt off mem avail =
     (case e_swtb e mem avail off buf cnt of (r, off1, mem1) \<Rightarrow> do {
        emit [Sleep]; State_Monad.return (map_sum id sint r, off1, mem1) })"

lemma run_copies [simp]:
  "run_state (kmalloc e n) m = (e_kmalloc e n, m\<lparr>events := events m @ [Sleep, Call (Kmalloc (e_kmalloc e n))]\<rparr>)"
  "run_state (copy_in e buf k) m = (e_cfu e buf k, m\<lparr>events := events m @ [Sleep]\<rparr>)"
  "run_state (copy_out e buf bs) m = (e_ctu e buf bs,
     m\<lparr>events := events m @ [Sleep, To_user buf (take (length bs - e_ctu e buf bs) bs)]\<rparr>)"
  "run_state (buf_out e buf cnt off b) m =
     (case e_srfb e buf cnt off b of (r, off1, ws) \<Rightarrow>
        ((map_sum id sint r, off1), m\<lparr>events := events m @ out_events ws\<rparr>))"
  "run_state (buf_in e buf cnt off mem avail) m =
     (case e_swtb e mem avail off buf cnt of (r, off1, mem1) \<Rightarrow>
        ((map_sum id sint r, off1, mem1), m\<lparr>events := events m @ [Sleep]\<rparr>))"
  by (simp_all add: kmalloc_def copy_in_def copy_out_def buf_out_def buf_in_def split: prod.split)

lemma out_events_calls [simp]: "calls (out_events ws) = []" "user_out (out_events ws) = ws"
  by (induction ws) (auto simp: out_events_def)

lemma ctx_run_out [simp]:
  "ctx_run (out_events ws @ evs) ([], mu) = ctx_run evs ([], mu)"
  "ctx_run (out_events ws) ([], mu) = Some ([], mu)"
proof -
  have "ctx_run (map (\<lambda>(a, bs). To_user a bs) ws @ ys) c = ctx_run ys c" for ys c
    by (induction ws) (cases c, auto)+
  from this [of evs] this [of "[]"] show "ctx_run (out_events ws @ evs) ([], mu) = ctx_run evs ([], mu)"
    "ctx_run (out_events ws) ([], mu) = Some ([], mu)" by (simp_all add: out_events_def)
qed

text \<open>
  A handler implements a pure model of it: the same result, globals, bytes in user memory and
  kernel calls; where the model has a fault, the handler has a wild access.
\<close>

definition implements ::
  "'s machine \<Rightarrow> ('s, 'a) handler \<Rightarrow> ('a \<times> 's \<times> user_writes \<times> kcall list) exec \<Rightarrow> bool" where
  "implements m h spec \<longleftrightarrow>
     (case spec of
        Fault \<Rightarrow> Wild \<in> set (events (snd (run_state h m)))
      | Ret (r, g, ws, cs) \<Rightarrow> \<exists>evs.
          run_state h m = (r, \<lparr>globals = g, events = events m @ evs\<rparr>) \<and>
          user_out evs = ws \<and> calls evs = cs)"

section \<open>Tables of file operations and the calls made through them\<close>

text \<open>
  \<open>struct file_operations\<close>; an open and a release get whether the file has \<open>FMODE_WRITE\<close>, a
  read and a write the user buffer, the count and the offset, an ioctl its command and argument
  (its result \<open>None\<close> is that of a function that runs off its end). Mapping a device changes nothing
  of the module.
\<close>

record 's file_ops =
  fop_open :: "(bool \<Rightarrow> ('s, errno + unit) handler) option"
  fop_release :: "(bool \<Rightarrow> ('s, errno + unit) handler) option"
  fop_read :: "(env \<Rightarrow> addr \<Rightarrow> u64 \<Rightarrow> u64 \<Rightarrow> ('s, (errno + int) \<times> u64) handler) option"
  fop_write :: "(env \<Rightarrow> addr \<Rightarrow> u64 \<Rightarrow> u64 \<Rightarrow> ('s, (errno + int) \<times> u64) handler) option"
  fop_ioctl :: "(env \<Rightarrow> u32 \<Rightarrow> u64 \<Rightarrow> ('s, (errno + int) option) handler) option"
  fop_mmap :: "(vm_area \<Rightarrow> errno + unit) option"

definition no_ops :: "'s file_ops" where
  "no_ops = \<lparr>fop_open = None, fop_release = None, fop_read = None, fop_write = None,
     fop_ioctl = None, fop_mmap = None\<rparr>"

text \<open>The files open, by number: the device and whether the file may be written.\<close>

type_synonym files = "nat \<rightharpoonup> nat \<times> bool"

datatype file_call =
    Open nat nat bool | Close nat
  | Read nat env addr u64 u64 | Write nat env addr u64 u64 | Ioctl nat env u32 u64

definition op_of :: "(nat \<Rightarrow> 's file_ops option) \<Rightarrow> files \<Rightarrow> nat \<Rightarrow> ('s file_ops \<Rightarrow> 'h option) \<Rightarrow> 'h option" where
  "op_of fops fs i sel = Option.bind (fs i) (\<lambda>(d, w). Option.bind (fops d) sel)"

definition run_op :: "('s, 'a) handler option \<Rightarrow> 's machine \<Rightarrow> 's machine" where
  "run_op h m = (case h of None \<Rightarrow> m | Some h \<Rightarrow> snd (run_state h m))"

text \<open>
  A call that the file system answers itself (a file that is not open, a write through a file
  not open for writing, an operation the table does not have) does not reach the module. An
  open that fails leaves no file behind; the result of a release is ignored.
\<close>

fun vfs :: "(nat \<Rightarrow> 's file_ops option) \<Rightarrow> file_call \<Rightarrow> 's machine \<times> files \<Rightarrow> 's machine \<times> files" where
  "vfs fops (Open i d w) (m, fs) =
     (case fops d of None \<Rightarrow> (m, fs)
      | Some t \<Rightarrow>
          if fs i \<noteq> None then (m, fs)
          else (case fop_open t of None \<Rightarrow> (m, fs(i \<mapsto> (d, w)))
                | Some h \<Rightarrow> (case run_state (h w) m of
                    (Inr _, m1) \<Rightarrow> (m1, fs(i \<mapsto> (d, w)))
                  | (Inl _, m1) \<Rightarrow> (m1, fs))))"
| "vfs fops (Close i) (m, fs) =
     (case fs i of None \<Rightarrow> (m, fs)
      | Some (d, w) \<Rightarrow> (run_op (map_option (\<lambda>h. h w) (op_of fops fs i fop_release)) m, fs(i := None)))"
| "vfs fops (Read i e buf cnt off) (m, fs) =
     (run_op (map_option (\<lambda>h. h e buf cnt off) (op_of fops fs i fop_read)) m, fs)"
| "vfs fops (Write i e buf cnt off) (m, fs) =
     (run_op (if \<exists>d. fs i = Some (d, True)
       then map_option (\<lambda>h. h e buf cnt off) (op_of fops fs i fop_write) else None) m, fs)"
| "vfs fops (Ioctl i e cmd arg) (m, fs) =
     (run_op (map_option (\<lambda>h. h e cmd arg) (op_of fops fs i fop_ioctl)) m, fs)"

text \<open>Calls with arguments the file system hands over and answers of the kernel as in \<open>envs\<close>.\<close>

fun call_ok :: "(env \<Rightarrow> bool) \<Rightarrow> file_call \<Rightarrow> bool" where
  "call_ok envs (Read i e buf cnt off) = (envs e \<and> vfs_args off cnt)"
| "call_ok envs (Write i e buf cnt off) = (envs e \<and> vfs_args off cnt)"
| "call_ok envs (Ioctl i e cmd arg) = envs e"
| "call_ok envs _ = True"

lemma call_ok_mono: "call_ok envs fc \<Longrightarrow> (\<And>e. envs e \<Longrightarrow> envs1 e) \<Longrightarrow> call_ok envs1 fc"
  by (cases fc) simp_all

definition loaded :: "'s \<Rightarrow> 's machine \<times> files" where
  "loaded g = (\<lparr>globals = g, events = []\<rparr>, Map.empty)"

abbreviation history :: "(nat \<Rightarrow> 's file_ops option) \<Rightarrow> file_call list \<Rightarrow> 's \<Rightarrow> 's machine \<times> files" where
  "history fops cs g \<equiv> fold (vfs fops) cs (loaded g)"

section \<open>The contract of a module's handlers\<close>

text \<open>
  From globals that are \<open>ok\<close>, a handler adds events that are \<open>fine\<close> and leaves the globals \<open>ok\<close>.
\<close>

definition good :: "('s \<Rightarrow> bool) \<Rightarrow> (event list \<Rightarrow> bool) \<Rightarrow> ('s, 'a) handler \<Rightarrow> bool" where
  "good ok fine h \<longleftrightarrow> (\<forall>g tr. ok g \<longrightarrow>
     (let m1 = snd (run_state h \<lparr>globals = g, events = tr\<rparr>)
      in ok (globals m1) \<and> (\<exists>evs. events m1 = tr @ evs \<and> fine evs)))"

lemma goodI:
  assumes "\<And>g tr. ok g \<Longrightarrow> \<exists>r g1 evs. run_state h \<lparr>globals = g, events = tr\<rparr> =
    (r, \<lparr>globals = g1, events = tr @ evs\<rparr>) \<and> ok g1 \<and> fine evs"
  shows "good ok fine h"
  unfolding good_def Let_def
proof (intro allI impI)
  fix g and tr :: "event list"
  assume "ok g"
  from assms [OF this, of tr]
  show "ok (globals (snd (run_state h \<lparr>globals = g, events = tr\<rparr>))) \<and>
    (\<exists>evs. events (snd (run_state h \<lparr>globals = g, events = tr\<rparr>)) = tr @ evs \<and> fine evs)"
    by auto
qed

lemma good_mono: "good ok fine h \<Longrightarrow> (\<And>evs. fine evs \<Longrightarrow> fine1 evs) \<Longrightarrow> good ok fine1 h"
  unfolding good_def Let_def by blast

lemmas good_quiet = good_mono [where fine = quiet, OF _ quietD(1)]
  good_mono [where fine = quiet, OF _ quietD(2)]

lemma good_run:
  fixes m :: "'s machine"
  assumes "good ok fine h" and "\<And>xs ys. fine xs \<Longrightarrow> fine ys \<Longrightarrow> fine (xs @ ys)"
    and "ok (globals m)" and "fine (events m)" and "run_state h m = (r, m1)"
  shows "ok (globals m1) \<and> fine (events m1)"
proof -
  have "m = \<lparr>globals = globals m, events = events m\<rparr>" by simp
  with assms obtain evs where "ok (globals m1)" "events m1 = events m @ evs" "fine evs"
    unfolding good_def Let_def by (metis snd_conv)
  with assms(2,4) show ?thesis by simp
qed

lemma good_run_op:
  "(\<And>h. ho = Some h \<Longrightarrow> good ok fine h) \<Longrightarrow> (\<And>xs ys. fine xs \<Longrightarrow> fine ys \<Longrightarrow> fine (xs @ ys)) \<Longrightarrow>
   ok (globals m) \<Longrightarrow> fine (events m) \<Longrightarrow>
   ok (globals (run_op ho m)) \<and> fine (events (run_op ho m))"
  by (cases ho; cases "run_state (the ho) m") (auto simp: run_op_def dest: good_run)

locale file_module =
  fixes fops :: "nat \<Rightarrow> 's file_ops option"
    and ok :: "'s \<Rightarrow> bool"
    and fine :: "event list \<Rightarrow> bool"
    and envs :: "env \<Rightarrow> bool"
  assumes fine_Nil: "fine []"
    and fine_append: "fine xs \<Longrightarrow> fine ys \<Longrightarrow> fine (xs @ ys)"
    and open_good: "fops d = Some t \<Longrightarrow> fop_open t = Some ho \<Longrightarrow> good ok fine (ho w)"
    and release_good: "fops d = Some t \<Longrightarrow> fop_release t = Some ho \<Longrightarrow> good ok fine (ho w)"
    and read_good: "fops d = Some t \<Longrightarrow> fop_read t = Some hr \<Longrightarrow> envs e \<Longrightarrow> vfs_args off cnt \<Longrightarrow>
      good ok fine (hr e buf cnt off)"
    and write_good: "fops d = Some t \<Longrightarrow> fop_write t = Some hr \<Longrightarrow> envs e \<Longrightarrow> vfs_args off cnt \<Longrightarrow>
      good ok fine (hr e buf cnt off)"
    and ioctl_good: "fops d = Some t \<Longrightarrow> fop_ioctl t = Some hi \<Longrightarrow> envs e \<Longrightarrow> good ok fine (hi e cmd arg)"
begin

definition sound :: "'s machine \<times> files \<Rightarrow> bool" where
  "sound c \<longleftrightarrow> ok (globals (fst c)) \<and> fine (events (fst c))"

lemma op_good:
  "map_option k (op_of fops fs i sel) = Some h \<Longrightarrow>
   (\<And>d t a. fops d = Some t \<Longrightarrow> sel t = Some a \<Longrightarrow> good ok fine (k a)) \<Longrightarrow> good ok fine h"
  by (auto simp: op_of_def Option.bind_eq_Some_conv)

lemma sound_open:
  assumes "sound (m, fs)"
  shows "sound (vfs fops (Open i d w) (m, fs))"
proof (cases "fops d")
  case None
  with assms show ?thesis by simp
next
  case (Some t)
  show ?thesis
  proof (cases "fop_open t")
    case None
    with assms Some show ?thesis by (simp add: sound_def)
  next
    case ho: (Some h)
    obtain r m1 where r: "run_state (h w) m = (r, m1)" by (cases "run_state (h w) m")
    with good_run [OF open_good [OF Some ho] fine_append _ _ this] assms
    have "ok (globals m1)" "fine (events m1)" by (simp_all add: sound_def)
    with assms Some ho r show ?thesis by (auto simp: sound_def split: sum.split)
  qed
qed

lemma sound_op:
  assumes "sound (m, fs)" and "\<And>h. ho = Some h \<Longrightarrow> good ok fine h"
  shows "sound (run_op ho m, fs1)"
  using good_run_op [of ho ok fine m] fine_append assms by (simp add: sound_def)

lemma sound_close: "sound (m, fs) \<Longrightarrow> sound (vfs fops (Close i) (m, fs))"
proof (cases "fs i")
  case (Some x)
  assume a: "sound (m, fs)"
  obtain d w where x: "x = (d, w)" by (cases x)
  have "sound (run_op (map_option (\<lambda>h. h w) (op_of fops fs i fop_release)) m, fs(i := None))"
    by (rule sound_op [OF a]) (erule op_good, rule release_good)
  then show ?thesis using Some x by simp
qed simp

lemma vfs_sound:
  assumes "sound (m, fs)" and "call_ok envs fc"
  shows "sound (vfs fops fc (m, fs))"
proof (cases fc)
  case (Open i d w)
  with sound_open assms show ?thesis by simp
next
  case (Close i)
  with sound_close assms show ?thesis by simp
next
  case (Read i e buf cnt off)
  have "sound (run_op (map_option (\<lambda>h. h e buf cnt off) (op_of fops fs i fop_read)) m, fs)"
    by (rule sound_op [OF assms(1)], erule op_good, rule read_good) (use Read assms(2) in simp_all)
  with Read show ?thesis by simp
next
  case (Write i e buf cnt off)
  have "sound (run_op (map_option (\<lambda>h. h e buf cnt off) (op_of fops fs i fop_write)) m, fs)"
    by (rule sound_op [OF assms(1)], erule op_good, rule write_good) (use Write assms(2) in simp_all)
  with Write assms(1) show ?thesis by (simp add: run_op_def)
next
  case (Ioctl i e cmd arg)
  have "sound (run_op (map_option (\<lambda>h. h e cmd arg) (op_of fops fs i fop_ioctl)) m, fs)"
    by (rule sound_op [OF assms(1)], erule op_good, rule ioctl_good) (use Ioctl assms(2) in simp_all)
  with Ioctl show ?thesis by simp
qed

text \<open>Every history of calls adds fine events only, whatever the processes do.\<close>

lemma history_sound: "ok g \<Longrightarrow> \<forall>fc \<in> set cs. call_ok envs fc \<Longrightarrow> sound (history fops cs g)"
proof (induction cs rule: rev_induct)
  case Nil
  then show ?case by (simp add: sound_def loaded_def fine_Nil)
next
  case (snoc fc cs)
  then show ?case
    using vfs_sound [of "fst (history fops cs g)" "snd (history fops cs g)" fc] by simp
qed

end

section \<open>Counters of open files\<close>

definition keeps :: "('s \<Rightarrow> bool) \<Rightarrow> ('s \<Rightarrow> 'c) \<Rightarrow> ('s, 'a) handler \<Rightarrow> bool" where
  "keeps ok counter h \<longleftrightarrow>
     (\<forall>m. ok (globals m) \<longrightarrow> counter (globals (snd (run_state h m))) = counter (globals m))"

lemma keeps_run_op:
  "(\<And>h. ho = Some h \<Longrightarrow> keeps ok counter h) \<Longrightarrow> ok (globals m) \<Longrightarrow>
   counter (globals (run_op ho m)) = counter (globals m)"
  by (cases ho) (auto simp: run_op_def keeps_def)

text \<open>
  \<open>counter\<close> goes up by one for an open of a \<open>counted\<close> device and mode that succeeds, down by one
  for its release, and nothing else moves it.
\<close>

locale counted_files = file_module +
  fixes counter :: "'a \<Rightarrow> u32"
    and counted :: "nat \<Rightarrow> bool \<Rightarrow> bool"
  assumes open_counts: "fops d = Some t \<Longrightarrow> fop_open t = Some ho \<Longrightarrow> ok (globals m) \<Longrightarrow>
      run_state (ho w) m = (r, m1) \<Longrightarrow>
      counter (globals m1) = counter (globals m) + (if counted d w \<and> \<not> isl r then 1 else 0)"
    and open_uncounted: "fops d = Some t \<Longrightarrow> fop_open t = None \<Longrightarrow> \<not> counted d w"
    and release_counts: "fops d = Some t \<Longrightarrow> fop_release t = Some ho \<Longrightarrow> ok (globals m) \<Longrightarrow>
      counter (globals (snd (run_state (ho w) m))) =
        counter (globals m) - (if counted d w then 1 else 0)"
    and release_uncounted: "fops d = Some t \<Longrightarrow> fop_release t = None \<Longrightarrow> \<not> counted d w"
    and read_keeps: "fops d = Some t \<Longrightarrow> fop_read t = Some hr \<Longrightarrow> envs e \<Longrightarrow> vfs_args off cnt \<Longrightarrow>
      keeps ok counter (hr e buf cnt off)"
    and write_keeps: "fops d = Some t \<Longrightarrow> fop_write t = Some hr \<Longrightarrow> envs e \<Longrightarrow> vfs_args off cnt \<Longrightarrow>
      keeps ok counter (hr e buf cnt off)"
    and ioctl_keeps: "fops d = Some t \<Longrightarrow> fop_ioctl t = Some hi \<Longrightarrow> envs e \<Longrightarrow>
      keeps ok counter (hi e cmd arg)"
begin

definition holders :: "files \<Rightarrow> nat set" where
  "holders fs = {i. \<exists>d w. fs i = Some (d, w) \<and> counted d w}"

lemma holders_open:
  "fs i = None \<Longrightarrow> holders (fs(i \<mapsto> (d, w))) = (if counted d w then insert i (holders fs) else holders fs)"
  "fs i = None \<Longrightarrow> i \<notin> holders fs"
  by (auto simp: holders_def)

lemma holders_close: "holders (fs(i := None)) = holders fs - {i}"
  by (auto simp: holders_def)

definition agree :: "'a machine \<times> files \<Rightarrow> bool" where
  "agree c \<longleftrightarrow> finite (holders (snd c)) \<and> counter (globals (fst c)) = of_nat (card (holders (snd c))) \<and>
     (\<forall>i x. snd c i = Some x \<longrightarrow> fops (fst x) \<noteq> None)"

lemma agree_open:
  assumes a: "agree (m, fs)" and s: "sound (m, fs)" and d: "fops d = Some t" and i: "fs i = None"
    and c: "counter (globals m1) = counter (globals m) + (if counted d w then 1 else 0)"
  shows "agree (m1, fs(i \<mapsto> (d, w)))"
  using a c d holders_open(1) [of fs i d w, OF i] holders_open(2) [of fs i, OF i]
  by (simp add: agree_def)

lemma agree_known: "agree (m, fs) \<Longrightarrow> fs i = Some (d, w) \<Longrightarrow> \<exists>t. fops d = Some t"
  by (fastforce simp: agree_def)

lemma agree_vfs_open:
  assumes a: "agree (m, fs)" and s: "sound (m, fs)"
  shows "agree (vfs fops (Open i d w) (m, fs))"
proof (cases "fops d = None \<or> fs i \<noteq> None")
  case True
  with a show ?thesis by (auto split: option.split)
next
  case False
  then have i: "fs i = None" by blast
  from False obtain t where Some: "fops d = Some t" by (cases "fops d") auto
  show ?thesis
  proof (cases "fop_open t")
    case None
    with agree_open [OF a s Some i, of m w] open_uncounted [OF Some None] Some i show ?thesis
      by simp
  next
    case ho: (Some h)
    obtain r m1 where r: "run_state (h w) m = (r, m1)" by (cases "run_state (h w) m")
    from open_counts [OF Some ho _ r] s have c: "counter (globals m1) =
        counter (globals m) + (if counted d w \<and> \<not> isl r then 1 else 0)" by (simp add: sound_def)
    show ?thesis
    proof (cases r)
      case (Inl er)
      with a Some ho r c i show ?thesis by (simp add: agree_def)
    next
      case (Inr u)
      with agree_open [OF a s Some i, of m1 w] Some ho r c i show ?thesis by simp
    qed
  qed
qed

lemma agree_release:
  assumes a: "agree (m, fs)" and i: "fs i = Some (d, w)"
    and c: "counter (globals m1) = counter (globals m) - (if counted d w then 1 else 0)"
  shows "agree (m1, fs(i := None))"
proof (cases "counted d w")
  case True
  with i have "i \<in> holders fs" by (auto simp: holders_def)
  moreover from a have "finite (holders fs)" by (simp add: agree_def)
  ultimately have "card (holders fs) = Suc (card (holders fs - {i}))" by (rule card.remove [rotated])
  then have n: "(of_nat (card (holders fs)) :: u32) = of_nat (card (holders fs - {i})) + 1" by simp
  from a c True have "counter (globals m1) = of_nat (card (holders fs)) - 1" by (simp add: agree_def)
  also have "\<dots> = of_nat (card (holders fs - {i}))" unfolding n by simp
  finally show ?thesis using a by (simp add: agree_def holders_close del: card_Diff_insert)
next
  case False
  with i have "holders fs - {i} = holders fs" by (auto simp: holders_def)
  with a c False show ?thesis by (simp add: agree_def holders_close)
qed

lemma agree_vfs_close:
  assumes a: "agree (m, fs)" and s: "sound (m, fs)"
  shows "agree (vfs fops (Close i) (m, fs))"
proof (cases "fs i")
  case None
  with a show ?thesis by simp
next
  case (Some x)
  obtain d w where x: "x = (d, w)" by (cases x)
  with agree_known [OF a] Some obtain t where t: "fops d = Some t" by blast
  let ?m = "run_op (map_option (\<lambda>h. h w) (op_of fops fs i fop_release)) m"
  have "counter (globals ?m) = counter (globals m) - (if counted d w then 1 else 0)"
    using release_counts [OF t] release_uncounted [OF t] s Some x t
    by (cases "fop_release t") (auto simp: run_op_def op_of_def sound_def)
  with agree_release [OF a] Some x show ?thesis by simp
qed

lemma op_keeps:
  "map_option k (op_of fops fs i sel) = Some h \<Longrightarrow>
   (\<And>d t a. fops d = Some t \<Longrightarrow> sel t = Some a \<Longrightarrow> keeps ok counter (k a)) \<Longrightarrow> keeps ok counter h"
  by (auto simp: op_of_def Option.bind_eq_Some_conv)

lemma agree_op:
  assumes "agree (m, fs)" and "sound (m, fs)" and "\<And>h. ho = Some h \<Longrightarrow> keeps ok counter h"
  shows "agree (run_op ho m, fs)"
  using keeps_run_op [of ho ok counter m] assms by (simp add: sound_def agree_def)

lemma vfs_agree:
  assumes "agree (m, fs)" and "sound (m, fs)" and "call_ok envs fc"
  shows "agree (vfs fops fc (m, fs))"
proof (cases fc)
  case (Open i d w)
  with agree_vfs_open assms show ?thesis by simp
next
  case (Close i)
  with agree_vfs_close assms show ?thesis by simp
next
  case (Read i e buf cnt off)
  have "agree (run_op (map_option (\<lambda>h. h e buf cnt off) (op_of fops fs i fop_read)) m, fs)"
    by (rule agree_op [OF assms(1,2)], erule op_keeps, rule read_keeps) (use Read assms(3) in simp_all)
  with Read show ?thesis by simp
next
  case (Write i e buf cnt off)
  have "agree (run_op (map_option (\<lambda>h. h e buf cnt off) (op_of fops fs i fop_write)) m, fs)"
    by (rule agree_op [OF assms(1,2)], erule op_keeps, rule write_keeps) (use Write assms(3) in simp_all)
  with Write assms(1) show ?thesis by (simp add: run_op_def)
next
  case (Ioctl i e cmd arg)
  have "agree (run_op (map_option (\<lambda>h. h e cmd arg) (op_of fops fs i fop_ioctl)) m, fs)"
    by (rule agree_op [OF assms(1,2)], erule op_keeps, rule ioctl_keeps) (use Ioctl assms(3) in simp_all)
  with Ioctl show ?thesis by simp
qed

text \<open>After every history the counter is the number of counted files that are open.\<close>

lemma history_agree:
  "ok g \<Longrightarrow> counter g = 0 \<Longrightarrow> \<forall>fc \<in> set cs. call_ok envs fc \<Longrightarrow> agree (history fops cs g)"
proof (induction cs rule: rev_induct)
  case Nil
  then show ?case by (simp add: agree_def loaded_def holders_def)
next
  case (snoc fc cs)
  with history_sound [of g cs] show ?case
    using vfs_agree [of "fst (history fops cs g)" "snd (history fops cs g)" fc] by simp
qed

end

text \<open>A counted open succeeds only while the counter is zero.\<close>

locale single_holder = counted_files +
  assumes open_zero: "fops d = Some t \<Longrightarrow> fop_open t = Some ho \<Longrightarrow> ok (globals m) \<Longrightarrow>
      run_state (ho w) m = (Inr u, m1) \<Longrightarrow> counted d w \<Longrightarrow> counter (globals m) = 0"
begin

lemma single_open:
  assumes a: "agree (m, fs)" and s: "sound (m, fs)" and c: "card (holders fs) \<le> 1"
  shows "card (holders (snd (vfs fops (Open i d w) (m, fs)))) \<le> 1"
proof (cases "\<exists>t h u m1. fs i = None \<and> fops d = Some t \<and> fop_open t = Some h \<and>
    run_state (h w) m = (Inr u, m1) \<and> counted d w")
  case True
  then obtain t h u m1 where h: "fs i = None" "fops d = Some t" "fop_open t = Some h"
    "run_state (h w) m = (Inr u, m1)" "counted d w" by blast
  have "counter (globals m) = 0"
    by (rule open_zero [OF h(2,3) _ h(4,5)]) (use s in \<open>simp add: sound_def\<close>)
  with a c have "holders fs = {}" by (cases "card (holders fs) = 0") (auto simp: agree_def le_Suc_eq)
  with h show ?thesis by (simp add: holders_open)
next
  case no: False
  show ?thesis
  proof (cases "fops d = None \<or> fs i \<noteq> None \<or> counted d w")
    case False
    then have i: "fs i = None" and "\<not> counted d w" by blast+
    then have "holders (fs(i \<mapsto> (d, w))) = holders fs" using holders_open(1) [of fs i d w] by simp
    with False c show ?thesis by (auto split: option.split sum.split prod.split)
  next
    case True
    moreover have "fop_open t \<noteq> None" if "fops d = Some t" and "counted d w" for t
      using open_uncounted that by blast
    ultimately show ?thesis
      using no c by (fastforce split: option.split sum.split prod.split)
  qed
qed

lemma vfs_files:
  "(\<And>i d w. fc \<noteq> Open i d w) \<Longrightarrow> finite (holders fs) \<Longrightarrow>
   card (holders (snd (vfs fops fc (m, fs)))) \<le> card (holders fs)"
  by (cases fc) (auto simp: holders_close card_Diff1_le split: option.split)

lemma history_single:
  "ok g \<Longrightarrow> counter g = 0 \<Longrightarrow> \<forall>fc \<in> set cs. call_ok envs fc \<Longrightarrow>
   card (holders (snd (history fops cs g))) \<le> 1"
proof (induction cs rule: rev_induct)
  case Nil
  then show ?case by (simp add: loaded_def holders_def)
next
  case (snoc fc cs)
  obtain m fs where h: "history fops cs g = (m, fs)" by (cases "history fops cs g")
  with snoc history_sound [of g cs] history_agree [of g cs]
  have a: "agree (m, fs)" "sound (m, fs)" "card (holders fs) \<le> 1" by simp_all
  show ?case
  proof (cases "\<exists>i d w. fc = Open i d w")
    case True
    with single_open [OF a] h show ?thesis by auto
  next
    case False
    then have "card (holders (snd (vfs fops fc (m, fs)))) \<le> card (holders fs)"
      using a(1) by (intro vfs_files) (auto simp: agree_def)
    with a(3) h show ?thesis by simp
  qed
qed

end

end
