(* ===== verification/Hw03.thy ===== *)
theory Hw03
  imports Char_Device Mmap_Device Module_Files
begin

text \<open>
  The modules of the homeworks 03 and 10 (\<open>03/pb173.c\<close>, \<open>10/homework/pb173.c\<close>), and the two handlers
  in which that of homework 02 differs: the greeting device without locks, and in 10 a mapping
  of four pages beside it. The device is number 0, the debugfs file number 1.
\<close>

section \<open>Homework 03\<close>

definition h03_open :: "bool \<Rightarrow> ('a chardev_scheme, errno + unit) handler" where
  "h03_open w = do {
     store (\<lambda>g. g\<lparr>open_count := open_count g + 1\<rparr>);
     State_Monad.return (Inr ()) }"

definition h03_release :: "bool \<Rightarrow> ('a chardev_scheme, errno + unit) handler" where
  "h03_release w = do {
     store (\<lambda>g. g\<lparr>open_count := open_count g - 1\<rparr>);
     State_Monad.return (Inr ()) }"

definition h03_write ::
  "env \<Rightarrow> addr \<Rightarrow> u64 \<Rightarrow> u64 \<Rightarrow> ('a chardev_scheme, (errno + int) \<times> u64) handler" where
  "h03_write e buf cnt off = do {
     str \<leftarrow> kmalloc e (cnt + 1);
     (nc, bs) \<leftarrow> copy_in e buf (unat cnt);
     (if str = NULL \<or> unat (cnt + 1) < unat cnt + 1
      then do { wild; State_Monad.return (Inl EFAULT, off) }
      else if nc \<noteq> 0 then State_Monad.return (Inl EFAULT, off)
      else do {
        emit [Call (Printk (cstr (bs @ [0]))), Call (Kfree str)];
        State_Monad.return (Inr (sint cnt), off) }) }"

definition h03_read ::
  "env \<Rightarrow> addr \<Rightarrow> u64 \<Rightarrow> u64 \<Rightarrow> ('a chardev_scheme, (errno + int) \<times> u64) handler" where
  "h03_read e buf cnt off = do {
     c1 \<leftarrow> load char_count;
     (case strcpy (e_stk e) (greeting c1) of
        Fault \<Rightarrow> do { wild; State_Monad.return (Inl EFAULT, off) }
      | Ret str \<Rightarrow> do {
          nc \<leftarrow> copy_out e buf str;
          c2 \<leftarrow> load char_count;
          State_Monad.return (if nc \<noteq> 0 then Inl EFAULT else Inr (sint c2), off) }) }"

definition h03_ioctl ::
  "ioc_abi \<Rightarrow> env \<Rightarrow> u32 \<Rightarrow> u64 \<Rightarrow> ('a chardev_scheme, (errno + int) option) handler" where
  "h03_ioctl abi e cmd arg =
     (if IOC_TYPE abi cmd \<noteq> MY_IOC_MAGIC then State_Monad.return (Some (Inl ENOTTY))
      else if IOC_NR abi cmd \<noteq> 16 \<and> IOC_NR abi cmd \<noteq> 17
      then State_Monad.return (Some (Inl ENOTTY))
      else if cmd = MY_WRITE abi \<and> (arg < 1 \<or> arg > 4) then State_Monad.return (Some (Inl EINVAL))
      else do {
        (if cmd = MY_WRITE abi then store (\<lambda>g. g\<lparr>char_count := ucast arg\<rparr>)
         else State_Monad.return ());
        (if cmd = MY_READ abi
         then do {
           c \<leftarrow> load char_count;
           nc \<leftarrow> copy_out e arg (le32 c);
           State_Monad.return (Some (if nc \<noteq> 0 then Inl EFAULT else Inr 0)) }
         else State_Monad.return (Some (Inr 0))) })"

definition h03_myreader ::
  "byte list \<Rightarrow> env \<Rightarrow> addr \<Rightarrow> u64 \<Rightarrow> u64 \<Rightarrow> ('a chardev_scheme, (errno + int) \<times> u64) handler" where
  "h03_myreader core e user_buffer cnt position = buf_out e user_buffer cnt position core"

definition my_fops_03 :: "ioc_abi \<Rightarrow> 'a chardev_scheme file_ops" where
  "my_fops_03 abi = no_ops\<lparr>fop_open := Some h03_open, fop_write := Some h03_write,
     fop_read := Some h03_read, fop_release := Some h03_release,
     fop_ioctl := Some (h03_ioctl abi)\<rparr>"

definition fops_debug_03 :: "byte list \<Rightarrow> 'a chardev_scheme file_ops" where
  "fops_debug_03 core = no_ops\<lparr>fop_read := Some (h03_myreader core)\<rparr>"

definition fops_03 :: "ioc_abi \<Rightarrow> byte list \<Rightarrow> nat \<Rightarrow> 'a chardev_scheme file_ops option" where
  "fops_03 abi core d =
     (if d = 0 then Some (my_fops_03 abi) else if d = 1 then Some (fops_debug_03 core) else None)"

section \<open>Homework 10\<close>

definition h10_open :: "bool \<Rightarrow> ('a chardev_scheme, errno + unit) handler" where
  "h10_open w = do {
     store (\<lambda>g. g\<lparr>open_count := open_count g + 1\<rparr>);
     State_Monad.return (Inr ()) }"

definition h10_release :: "bool \<Rightarrow> ('a chardev_scheme, errno + unit) handler" where
  "h10_release w = do {
     store (\<lambda>g. g\<lparr>open_count := open_count g - 1\<rparr>);
     State_Monad.return (Inr ()) }"

definition h10_write ::
  "env \<Rightarrow> addr \<Rightarrow> u64 \<Rightarrow> u64 \<Rightarrow> ('a chardev_scheme, (errno + int) \<times> u64) handler" where
  "h10_write e buf cnt off = do {
     str \<leftarrow> kmalloc e (cnt + 1);
     (nc, bs) \<leftarrow> copy_in e buf (unat cnt);
     (if str = NULL \<or> unat (cnt + 1) < unat cnt + 1
      then do { wild; State_Monad.return (Inl EFAULT, off) }
      else if nc \<noteq> 0 then State_Monad.return (Inl EFAULT, off)
      else do {
        emit [Call (Printk (cstr (bs @ [0]))), Call (Kfree str)];
        State_Monad.return (Inr (sint cnt), off) }) }"

definition h10_read ::
  "env \<Rightarrow> addr \<Rightarrow> u64 \<Rightarrow> u64 \<Rightarrow> ('a chardev_scheme, (errno + int) \<times> u64) handler" where
  "h10_read e buf cnt off = do {
     c1 \<leftarrow> load char_count;
     (case strcpy (e_stk e) (greeting c1) of
        Fault \<Rightarrow> do { wild; State_Monad.return (Inl EFAULT, off) }
      | Ret str \<Rightarrow> do {
          nc \<leftarrow> copy_out e buf str;
          c2 \<leftarrow> load char_count;
          State_Monad.return (if nc \<noteq> 0 then Inl EFAULT else Inr (sint c2), off) }) }"

definition h10_ioctl ::
  "ioc_abi \<Rightarrow> env \<Rightarrow> u32 \<Rightarrow> u64 \<Rightarrow> ('a chardev_scheme, (errno + int) option) handler" where
  "h10_ioctl abi e cmd arg =
     (if IOC_TYPE abi cmd \<noteq> MY_IOC_MAGIC then State_Monad.return (Some (Inl ENOTTY))
      else if IOC_NR abi cmd \<noteq> 16 \<and> IOC_NR abi cmd \<noteq> 17
      then State_Monad.return (Some (Inl ENOTTY))
      else if cmd = MY_WRITE abi \<and> (arg < 1 \<or> arg > 4) then State_Monad.return (Some (Inl EINVAL))
      else do {
        (if cmd = MY_WRITE abi then store (\<lambda>g. g\<lparr>char_count := ucast arg\<rparr>)
         else State_Monad.return ());
        (if cmd = MY_READ abi
         then do {
           c \<leftarrow> load char_count;
           nc \<leftarrow> copy_out e arg (le32 c);
           State_Monad.return (Some (if nc \<noteq> 0 then Inl EFAULT else Inr 0)) }
         else State_Monad.return (Some (Inr 0))) })"

definition h10_myreader ::
  "byte list \<Rightarrow> env \<Rightarrow> addr \<Rightarrow> u64 \<Rightarrow> u64 \<Rightarrow> ('a chardev_scheme, (errno + int) \<times> u64) handler" where
  "h10_myreader core e user_buffer cnt position = buf_out e user_buffer cnt position core"

definition my_fops_10 :: "ioc_abi \<Rightarrow> 'a chardev_scheme file_ops" where
  "my_fops_10 abi = no_ops\<lparr>fop_open := Some h10_open, fop_write := Some h10_write,
     fop_read := Some h10_read, fop_release := Some h10_release,
     fop_ioctl := Some (h10_ioctl abi), fop_mmap := Some my_mmap_10\<rparr>"

definition fops_debug_10 :: "byte list \<Rightarrow> 'a chardev_scheme file_ops" where
  "fops_debug_10 core = no_ops\<lparr>fop_read := Some (h10_myreader core)\<rparr>"

definition fops_10 :: "ioc_abi \<Rightarrow> byte list \<Rightarrow> nat \<Rightarrow> 'a chardev_scheme file_ops option" where
  "fops_10 abi core d =
     (if d = 0 then Some (my_fops_10 abi) else if d = 1 then Some (fops_debug_10 core) else None)"

section \<open>Homework 02\<close>

text \<open>Opens are not counted; the other handlers have the text of homework 03.\<close>

definition h02_open :: "bool \<Rightarrow> ('a chardev_scheme, errno + unit) handler" where
  "h02_open w = State_Monad.return (Inr ())"

definition h02_release :: "bool \<Rightarrow> ('a chardev_scheme, errno + unit) handler" where
  "h02_release w = State_Monad.return (Inr ())"

definition my_fops_02 :: "ioc_abi \<Rightarrow> 'a chardev_scheme file_ops" where
  "my_fops_02 abi = no_ops\<lparr>fop_open := Some h02_open, fop_write := Some h03_write,
     fop_read := Some h03_read, fop_release := Some h02_release,
     fop_ioctl := Some (h03_ioctl abi)\<rparr>"

definition fops_02 :: "ioc_abi \<Rightarrow> nat \<Rightarrow> 'a chardev_scheme file_ops option" where
  "fops_02 abi d = (if d = 0 then Some (my_fops_02 abi) else None)"

section \<open>Every handler does what it may\<close>

definition ok_03 :: "'a chardev_scheme \<Rightarrow> bool" where
  "ok_03 g \<longleftrightarrow> 1 \<le> char_count g \<and> char_count g \<le> 4"

lemma h03_good:
  "good ok_03 quiet (h03_open w)" "good ok_03 quiet (h03_release w)"
  "good ok_03 quiet (h02_open w)" "good ok_03 quiet (h02_release w)"
  "good ok_03 quiet (h03_ioctl abi e cmd arg)" "good ok_03 quiet (h03_myreader core e buf cnt off)"
  by (rule goodI, auto simp: h03_open_def h03_release_def h02_open_def h02_release_def h03_ioctl_def
      h03_myreader_def ok_03_def quiet_def allowed_def ucast_one_to_four not_less split: prod.split)+

lemma h03_read_good: "env_ok e \<Longrightarrow> good ok_03 quiet (h03_read e buf cnt off)"
  by (rule goodI) (simp add: h03_read_def ok_03_def quiet_def allowed_def env_ok_def greeting_fits)

lemma h03_write_good:
  assumes "env_ok e" and "vfs_args off cnt"
  shows "good ok_03 allowed (h03_write e buf cnt off)"
  by (rule goodI, cases "e_cfu e buf (unat cnt)")
    (use assms in \<open>auto simp: h03_write_def allowed_def env_ok_def no_wrap\<close>)

lemma h03_write_neutral:
  assumes "env_full e" and "vfs_args off cnt"
  shows "good ok_03 neutral (h03_write e buf cnt off)"
proof (rule goodI)
  fix g :: "'a chardev_scheme" and tr
  assume g: "ok_03 g"
  obtain bs where "e_cfu e buf (unat cnt) = (0, bs)"
    using assms(1) unfolding env_full_def by (metis prod.collapse)
  with g assms show "\<exists>r g1 evs. run_state (h03_write e buf cnt off) \<lparr>globals = g, events = tr\<rparr> =
      (r, \<lparr>globals = g1, events = tr @ evs\<rparr>) \<and> ok_03 g1 \<and> neutral evs"
    by (simp add: h03_write_def env_full_def env_ok_def no_wrap kmalloc_kfree_neutral)
qed

lemma h03_keep:
  "keeps ok open_count (h03_write e buf cnt off)" "keeps ok open_count (h03_read e buf cnt off)"
  "keeps ok open_count (h03_ioctl abi e cmd arg)" "keeps ok open_count (h03_myreader core e buf cnt off)"
  by (auto simp: keeps_def h03_write_def h03_read_def h03_ioctl_def h03_myreader_def
      split: prod.split exec.split)

lemma h03_runs:
  "run_state (h03_open w) m = (Inr (), m\<lparr>globals := (globals m)\<lparr>open_count := open_count (globals m) + 1\<rparr>\<rparr>)"
  "run_state (h03_release w) m = (Inr (), m\<lparr>globals := (globals m)\<lparr>open_count := open_count (globals m) - 1\<rparr>\<rparr>)"
  by (simp_all add: h03_open_def h03_release_def)

lemma h10_same:
  "h10_open = h03_open" "h10_release = h03_release" "h10_write = h03_write" "h10_read = h03_read"
  "h10_ioctl = h03_ioctl" "h10_myreader = h03_myreader"
  by (intro ext, simp only: h10_open_def h03_open_def h10_release_def h03_release_def h10_write_def
      h03_write_def h10_read_def h03_read_def h10_ioctl_def h03_ioctl_def h10_myreader_def
      h03_myreader_def)+

section \<open>The modules\<close>

lemma fops_03_Some:
  "fops_03 abi core d = Some t \<longleftrightarrow> d = 0 \<and> t = my_fops_03 abi \<or> d = 1 \<and> t = fops_debug_03 core"
  "fops_10 abi core d = Some t \<longleftrightarrow> d = 0 \<and> t = my_fops_10 abi \<or> d = 1 \<and> t = fops_debug_10 core"
  "fops_02 abi d = Some t \<longleftrightarrow> d = 0 \<and> t = my_fops_02 abi"
  by (auto simp: fops_03_def fops_10_def fops_02_def)

lemmas tables_03 = fops_03_Some my_fops_03_def my_fops_10_def my_fops_02_def fops_debug_03_def
  fops_debug_10_def no_ops_def h10_same

lemmas h03_allowed = h03_write_good h03_read_good [THEN good_quiet(1)] h03_good [THEN good_quiet(1)]
lemmas h03_neutral = h03_write_neutral h03_read_good [THEN good_quiet(2)] h03_good [THEN good_quiet(2)]

interpretation mod02: file_module "fops_02 abi" ok_03 allowed env_ok for abi
  by unfold_locales (auto simp: tables_03 allowed_append h03_allowed)

interpretation opens03: counted_files "fops_03 abi core" ok_03 allowed env_ok open_count "\<lambda>d w. d = 0"
  for abi core
  by unfold_locales (auto simp: tables_03 allowed_append h03_allowed h03_keep h03_runs)

interpretation opens10: counted_files "fops_10 abi core" ok_03 allowed env_ok open_count "\<lambda>d w. d = 0"
  for abi core
  by unfold_locales (auto simp: tables_03 allowed_append h03_allowed h03_keep h03_runs)

interpretation clean10: file_module "fops_10 abi core" ok_03 neutral env_full for abi core
  by unfold_locales
    (auto simp: tables_03 neutral_Nil neutral_append env_full_ok h03_neutral)

section \<open>The life of the module of homework 10\<close>

lemma life_10:
  assumes "my_init_10 v 0 dir ctr bin m ram = Ret (tr, ram1)"
  shows "\<exists>H. kres_run tr {#} = Some H \<and> \<not> callbacks_live H \<and>
    kres_run (my_exit_10 dir ctr bin m) H = Some {#}"
proof -
  have "NULL \<notin> {mem1 m, mem2 m, mem3 m, mem4 m}"
    using assms by (auto simp: my_init_10_def exec_bind_Ret_iff store_str_def split: if_splits)
  moreover have "tr = [Misc_register 0 0, Debugfs_create dir, Debugfs_create ctr,
      Debugfs_create bin, Get_free_page (mem1 m), Get_free_page (mem2 m),
      Get_free_page (mem3 m), Get_free_page (mem4 m)]"
    using assms by (auto simp: my_init_10_def exec_bind_Ret_iff)
  ultimately show ?thesis
    by (auto simp: my_exit_10_def accounting)
qed

section \<open>Properties\<close>



end
