(* ===== verification/Buf_Device.thy ===== *)
theory Buf_Device
  imports Locked Exclusive
begin

text \<open>
  The two-device buffer of the homeworks 04 and 06: a buffer of 128 bytes that one process at
  a time may have open for writing (\<open>my_write_device\<close>) and any number read
  (\<open>my_read_device\<close>), with a mutex around the buffer and a spinlock around the number of
  writers. Offsets are signed and counts unsigned 64-bit integers, compared and added as C
  does.
\<close>

section \<open>State and operations\<close>

record bufdev =
  buffer :: "byte list"
  writers :: u32

definition bufdev_init :: bufdev where
  "bufdev_init = \<lparr>buffer = replicate 128 0, writers = 0\<rparr>"

lemma bufdev_init_simps [simp]:
  "writers bufdev_init = 0" "buffer bufdev_init = replicate 128 0"
  by (simp_all add: bufdev_init_def)

text \<open>\<open>w\<close>: the file is opened with \<open>FMODE_WRITE\<close>.\<close>

definition my_write_open :: "bool \<Rightarrow> bufdev \<Rightarrow> (errno + unit) \<times> bufdev" where
  "my_write_open w st =
     (if w
      then let dev_unavailable = writers st;
               st1 = (if dev_unavailable = 0 then st\<lparr>writers := writers st + 1\<rparr> else st)
           in if dev_unavailable \<noteq> 0 then (Inl EBUSY, st1) else (Inr (), st1)
      else (Inr (), st))"

definition my_write_release :: "bool \<Rightarrow> bufdev \<Rightarrow> bufdev" where
  "my_write_release w st = (if w then st\<lparr>writers := writers st - 1\<rparr> else st)"

text \<open>
  The number of bytes a write takes: the sum of offset and count is unsigned and may wrap, the
  rest of the buffer is counted up to but not including its last byte.
\<close>

definition write_count :: "u64 \<Rightarrow> u64 \<Rightarrow> u64" where
  "write_count off cnt =
     (let cnt1 = (if off + cnt > 127 then 127 - off else cnt) in if cnt1 > 5 then 5 else cnt1)"

text \<open>The loop that stores one byte per iteration; an index outside the buffer is a fault.\<close>

function buf_copy :: "byte list \<Rightarrow> u64 \<Rightarrow> byte list \<Rightarrow> nat \<Rightarrow> nat \<Rightarrow> byte list exec" where
  "buf_copy b off cpy_buffer n i =
     (if i < n
      then let j = int i + sint off
           in if 0 \<le> j \<and> j < int (length b) \<and> i < length cpy_buffer
              then buf_copy (b[nat j := cpy_buffer ! i]) off cpy_buffer n (i + 1)
              else Fault
      else Ret b)"
  by pat_completeness auto
termination
  by (relation "measure (\<lambda>(_, _, _, n, i). n - i)") auto

declare buf_copy.simps [simp del]

text \<open>The result, the offset afterwards and the device.\<close>

definition buf_write ::
  "copy_from_user \<Rightarrow> addr \<Rightarrow> u64 \<Rightarrow> u64 \<Rightarrow> bufdev \<Rightarrow> ((errno + u64) \<times> u64 \<times> bufdev) exec" where
  "buf_write cfu buf cnt off st =
     (if 127 < sint off then Ret (Inr 0, off, st)
      else let n = write_count off cnt; (nc, cpy_buffer) = cfu buf (unat n)
           in if nc \<noteq> 0 then Ret (Inl EFAULT, off, st)
              else exec_bind (buf_copy (buffer st) off cpy_buffer (unat n) 0)
                     (\<lambda>b. Ret (Inr n, off + n, st\<lparr>buffer := b\<rparr>)))"

definition buf_read ::
  "simple_read \<Rightarrow> addr \<Rightarrow> u64 \<Rightarrow> u64 \<Rightarrow> bufdev \<Rightarrow> (errno + u64) \<times> u64 \<times> user_writes" where
  "buf_read srfb buf cnt off st =
     (if 127 < sint off \<or> cnt = 0 then (Inr 0, off, []) else srfb buf cnt off (buffer st))"

section \<open>Writing: bounds and effect\<close>

lemma unat_write_count:
  assumes "vfs_args off cnt" and "unat off \<le> 127"
  shows "unat (write_count off cnt) = min 5 (min (unat cnt) (127 - unat off))"
proof -
  obtain v where "unat cnt = v" "v < 2 ^ 63"
    using sint_nonneg assms(1) unfolding vfs_args_def by blast
  with assms have sum: "unat (off + cnt) = unat off + unat cnt"
    by (simp add: vfs_args_def unat_word_ariths)
  have diff: "unat (127 - off) = 127 - unat off"
    using assms(2) by (simp add: unat_sub word_le_nat_alt)
  show ?thesis
    using sum diff by (auto simp: write_count_def Let_def word_less_nat_alt)
qed

lemma buf_copy_blit:
  assumes "i \<le> n" and "n \<le> length cpy" and "0 \<le> sint off" and "unat off + n \<le> length b"
  shows "buf_copy b off cpy n i = Ret (blit b (unat off + i) (drop i (take n cpy)))"
  using assms
proof (induction b off cpy n i rule: buf_copy.induct)
  case (1 b off cpy n i)
  show ?case
  proof (cases "i < n")
    case True
    let ?j = "int i + sint off" and ?k = "unat off + i"
    obtain u where u: "sint off = int u" "unat off = u" using sint_nonneg "1.prems"(3) by blast
    have j: "nat ?j = ?k" "0 \<le> ?j" "?j < int (length b)"
      using "1.prems" True unfolding u by simp_all
    have rest: "drop i (take n cpy) = cpy ! i # drop (i + 1) (take n cpy)"
      using True "1.prems" Cons_nth_drop_Suc [of i "take n cpy"] by simp
    have "buf_copy b off cpy n i = buf_copy (b[?k := cpy ! i]) off cpy n (i + 1)"
      using True j "1.prems" by (simp add: buf_copy.simps [of b])
    also have "\<dots> = Ret (blit (b[?k := cpy ! i]) (?k + 1) (drop (i + 1) (take n cpy)))"
      using "1.IH" [OF True refl] True j "1.prems" by (simp add: add.assoc)
    also have "blit (b[?k := cpy ! i]) (?k + 1) (drop (i + 1) (take n cpy)) =
        blit b ?k (drop i (take n cpy))"
      unfolding rest using "1.prems" True by (simp add: blit_Cons)
    finally show ?thesis .
  next
    case False
    with "1.prems" show ?thesis by (simp add: buf_copy.simps [of b])
  qed
qed

lemma buf_write_effect:
  assumes "cfu_ok um cfu" and v: "vfs_args off cnt" and "length (buffer st) = 128"
    and off: "unat off \<le> 127" and n: "n = min 5 (min (unat cnt) (127 - unat off))"
  shows "buf_write cfu buf cnt off st =
    (if fst (cfu buf n) \<noteq> 0 then Ret (Inl EFAULT, off, st)
     else Ret (Inr (of_nat n), off + of_nat n,
       st\<lparr>buffer := blit (buffer st) (unat off) (map (\<lambda>i. um (buf + of_nat i)) [0..<n])\<rparr>))"
proof -
  obtain u where u: "sint off = int u" "unat off = u"
    using sint_nonneg v unfolding vfs_args_def by blast
  have wc: "unat (write_count off cnt) = n" using unat_write_count [OF v off] n by simp
  then have w: "write_count off cnt = of_nat n" by (metis ucast_id of_nat_unat)
  obtain nc cpy where c: "cfu buf n = (nc, cpy)" by (cases "cfu buf n")
  have len: "length cpy = n" by (rule cfu_ok_length [OF assms(1) c])
  have "buf_copy (buffer st) off cpy n 0 = Ret (blit (buffer st) (unat off) cpy)"
    using buf_copy_blit [of 0 n cpy off "buffer st"] len n assms(3) off v
    by (simp add: vfs_args_def)
  then have "buf_write cfu buf cnt off st =
      (if nc \<noteq> 0 then Ret (Inl EFAULT, off, st)
       else Ret (Inr (of_nat n), off + of_nat n, st\<lparr>buffer := blit (buffer st) (unat off) cpy\<rparr>))"
    using c u off wc by (simp add: buf_write_def Let_def w)
  moreover have "nc = 0 \<Longrightarrow> cpy = map (\<lambda>i. um (buf + of_nat i)) [0..<n]"
    using cfu_ok_full [OF assms(1), of buf n cpy] c by simp
  ultimately show ?thesis using c by (cases "nc = 0") simp_all
qed

section \<open>One writer\<close>

lemma one_of_two: "(w :: u32) \<le> 1 \<Longrightarrow> w \<noteq> 0 \<Longrightarrow> w = 1"
  by (simp add: word_le_nat_alt word_unat_eq_iff)

interpretation writers: exclusive_open my_write_open my_write_release "\<lambda>w. w"
  "\<lambda>st. writers st = 0" "\<lambda>st. writers st \<le> 1"
  by unfold_locales
    (auto simp: my_write_open_def my_write_release_def Let_def dest: one_of_two split: if_splits)

section \<open>Readers and writers interleaved\<close>

text \<open>
  What goes on under the mutex: a write that passed its checks stores its bytes one at a time
  (and sleeps after each), a read copies a window of the buffer out. \<open>Buf_write off cnt cpy\<close>
  carries the offset and count of the call and the bytes it copied from user memory.
\<close>

datatype buf_op = Buf_write u64 u64 "byte list" | Buf_read u64 u64

definition write_admitted :: "u64 \<Rightarrow> u64 \<Rightarrow> byte list \<Rightarrow> bool" where
  "write_admitted off cnt cpy \<longleftrightarrow> vfs_args off cnt \<and> \<not> 127 < sint off \<and>
     length cpy = unat (write_count off cnt)"

definition read_window :: "u64 \<Rightarrow> u64 \<Rightarrow> byte list \<Rightarrow> byte list" where
  "read_window off cnt b = take (unat cnt) (drop (unat off) b)"

fun buf_micro :: "buf_op \<Rightarrow> (byte list \<times> byte list \<Rightarrow> byte list \<times> byte list) list" where
  "buf_micro (Buf_write off cnt cpy_buffer) =
     (if write_admitted off cnt cpy_buffer
      then map (\<lambda>i (b, r). (b[unat off + i := cpy_buffer ! i], r)) [0..<length cpy_buffer] else [])"
| "buf_micro (Buf_read off cnt) =
     (if 127 < sint off \<or> cnt = 0 then [] else [\<lambda>(b, r). (b, read_window off cnt b)])"

definition store_bytes :: "byte list \<Rightarrow> nat \<Rightarrow> byte list \<Rightarrow> byte list" where
  "store_bytes b off cpy = fold (\<lambda>i b. b[off + i := cpy ! i]) [0..<length cpy] b"

fun buf_atomic :: "buf_op \<Rightarrow> byte list \<Rightarrow> byte list \<times> byte list" where
  "buf_atomic (Buf_write off cnt cpy) b =
     (if write_admitted off cnt cpy then store_bytes b (unat off) cpy else b, [])"
| "buf_atomic (Buf_read off cnt) b =
     (b, if 127 < sint off \<or> cnt = 0 then [] else read_window off cnt b)"

lemma store_bytes_blit:
  "off + length cpy \<le> length b \<Longrightarrow> store_bytes b off cpy = blit b off cpy"
proof (induction cpy rule: rev_induct)
  case Nil
  show ?case by (simp add: store_bytes_def)
next
  case (snoc x cpy)
  have "fold (\<lambda>i b. b[off + i := (cpy @ [x]) ! i]) [0..<length cpy] b = store_bytes b off cpy"
    unfolding store_bytes_def by (rule fold_cong) (auto simp: nth_append)
  with snoc show ?case by (simp add: store_bytes_def [of b off "cpy @ [x]"] blit_snoc)
qed

lemma fold_micro:
  "fold (\<lambda>f. f) (map (\<lambda>i (b, r). (f i b, r)) xs) (b, r) = (fold f xs b, r)"
  by (induction xs arbitrary: b) simp_all

interpretation buf: locked_op buf_micro "\<lambda>_. []" buf_atomic
proof
  show "fold (\<lambda>f. f) (buf_micro op) (s, []) = buf_atomic op s" for op s
    by (cases op) (simp_all add: fold_micro store_bytes_def)
qed

lemma write_admitted_fits:
  assumes "write_admitted off cnt cpy"
  shows "unat off + length cpy \<le> 127"
proof -
  from assms have v: "vfs_args off cnt" and l: "length cpy = unat (write_count off cnt)"
    by (auto simp: write_admitted_def)
  obtain u where u: "sint off = int u" "unat off = u"
    using sint_nonneg v unfolding vfs_args_def by blast
  with assms have "unat off \<le> 127" by (simp add: write_admitted_def)
  with unat_write_count [OF v this] l show ?thesis by simp
qed

text \<open>Every write leaves the length of the buffer and its last byte alone.\<close>

definition buf_terminated :: "byte list \<Rightarrow> bool" where
  "buf_terminated b \<longleftrightarrow> length b = 128 \<and> b ! 127 = 0"

lemma buf_atomic_keeps: "buf_terminated b \<Longrightarrow> buf_terminated (fst (buf_atomic op b))"
proof (cases op)
  case (Buf_write off cnt cpy)
  assume b: "buf_terminated b"
  show ?thesis
  proof (cases "write_admitted off cnt cpy")
    case True
    from write_admitted_fits [OF True] b show ?thesis
      using Buf_write True by (simp add: buf_terminated_def store_bytes_blit nth_blit)
  next
    case False
    with Buf_write b show ?thesis by simp
  qed
qed simp

text \<open>The handler and its critical section agree.\<close>

lemma buf_write_atomic:
  assumes "cfu_ok um cfu" and v: "vfs_args off cnt" and st: "length (buffer st) = 128"
    and w: "buf_write cfu buf cnt off st = Ret (Inr n, off1, st1)" and "unat off \<le> 127"
  shows "\<exists>cpy. write_admitted off cnt cpy \<and>
    buffer st1 = fst (buf_atomic (Buf_write off cnt cpy) (buffer st))"
proof -
  let ?n = "min 5 (min (unat cnt) (127 - unat off))"
  let ?cpy = "map (\<lambda>i. um (buf + of_nat i)) [0..<?n]"
  obtain u where u: "sint off = int u" "unat off = u"
    using sint_nonneg v unfolding vfs_args_def by blast
  have a: "write_admitted off cnt ?cpy"
    using v u assms(5) unat_write_count [OF v assms(5)] by (simp add: write_admitted_def)
  have "buffer st1 = blit (buffer st) (unat off) ?cpy"
    using w buf_write_effect [OF assms(1) v st assms(5) refl, of buf] by (auto split: if_splits)
  with a write_admitted_fits [OF a] st show ?thesis
    by (intro exI [of _ ?cpy]) (simp add: store_bytes_blit)
qed

section \<open>Properties\<close>

text \<open>
  C14: A write at an offset past the buffer does nothing; any other write takes at most five
  bytes, at most as many as asked for and none for the last byte of the buffer, stores them at
  its offset and nowhere else, and advances the offset by their number; if user memory cannot
  be read it changes nothing. No write goes outside the buffer.
\<close>

theorem buf_write_correct:
  assumes "cfu_ok um cfu" and "vfs_args off cnt" and "length (buffer st) = 128"
  shows "let n = min 5 (min (unat cnt) (127 - unat off)) in
    buf_write cfu buf cnt off st =
      (if 127 < unat off then Ret (Inr 0, off, st)
       else if fst (cfu buf n) \<noteq> 0 then Ret (Inl EFAULT, off, st)
       else Ret (Inr (of_nat n), off + of_nat n,
         st\<lparr>buffer := blit (buffer st) (unat off) (map (\<lambda>i. um (buf + of_nat i)) [0..<n])\<rparr>))"
proof (cases "127 < unat off")
  case True
  obtain u where "sint off = int u" "unat off = u"
    using sint_nonneg assms(2) unfolding vfs_args_def by blast
  with True show ?thesis by (simp add: buf_write_def Let_def)
next
  case False
  with buf_write_effect [OF assms _ refl, of buf] show ?thesis by (simp add: Let_def)
qed

theorem buf_write_correct_witness:
  "buf_write (cfu_all (\<lambda>a. ucast a)) 0x41 9 124 bufdev_init =
     Ret (Inr 3, 127, bufdev_init\<lparr>buffer := replicate 124 0 @ [0x41, 0x42, 0x43, 0]\<rparr>)"
proof -
  have "blit (replicate 128 0) 124 [0x41, 0x42, 0x43 :: byte] =
      replicate 124 0 @ [0x41, 0x42, 0x43, 0]"
    by (simp add: blit_def)
  then show ?thesis
    using buf_write_correct [OF cfu_ok_cfu_all, where um = "\<lambda>a. ucast a" and off = 124 and cnt = 9
        and st = bufdev_init and buf = "0x41"]
    by (simp add: vfs_args_def bufdev_init_def cfu_all_def upt_conv_Cons Let_def)
qed

text \<open>
  C15: With any number of processes writing and reading at the same time, a finished read has
  seen the buffer as a sequence of whole writes left it (never half a write), and that buffer
  still has its length and its terminating zero.
\<close>

theorem buf_no_torn_read:
  assumes "lock_reach buf_micro (\<lambda>_. []) (buffer bufdev_init) c"
    and "hist c = h1 @ (Buf_read off cnt, r) # h2" and "sint off \<le> 127" and "cnt \<noteq> 0"
  shows "\<exists>b. b = after buf_atomic h1 (buffer bufdev_init) \<and> r = read_window off cnt b \<and>
    length b = 128 \<and> b ! 127 = 0"
proof -
  obtain s where s: "replay buf_atomic (hist c) (buffer bufdev_init) = Some s"
    using buf.results_sequential [OF assms(1)] by blast
  have "buf_terminated (buffer bufdev_init)" by (simp add: buf_terminated_def bufdev_init_def)
  from after_keeps [of buf_terminated, OF this buf_atomic_keeps]
  have "buf_terminated (after buf_atomic h1 (buffer bufdev_init))" .
  moreover from replay_at [OF s [unfolded assms(2)]]
  have "r = read_window off cnt (after buf_atomic h1 (buffer bufdev_init))"
    using assms(3,4) by simp
  ultimately show ?thesis by (auto simp: buf_terminated_def)
qed

theorem buf_no_torn_read_witness:
  "\<exists>c. lock_reach buf_micro (\<lambda>_. []) (buffer bufdev_init) c \<and>
     hist c = [(Buf_write 2 3 [0x61, 0x62, 0x63], []), (Buf_read 1 3, [0, 0x61, 0x62])] \<and>
     [0, 0x61, 0x62] = read_window 1 3
       (after buf_atomic [(Buf_write 2 3 [0x61, 0x62, 0x63], [])] (buffer bufdev_init))"
proof -
  let ?w = "Buf_write 2 3 [0x61, 0x62, 0x63]"
  let ?c = "fold (lock_do buf_micro (\<lambda>_. []))
    [(0, ?w), (1, Buf_read 1 3), (0, ?w), (0, ?w), (1, ?w), (0, ?w), (0, ?w), (1, ?w), (0, ?w),
     (1, ?w), (1, ?w), (1, ?w)] (threads_start (replicate 128 0))"
  have "lock_reach buf_micro (\<lambda>_. []) (buffer bufdev_init) ?c"
    unfolding bufdev_init_simps by (rule lock_schedule)
  moreover have "hist ?c = [(?w, []), (Buf_read 1 3, [0, 0x61, 0x62])]" by code_simp
  ultimately obtain c where c: "lock_reach buf_micro (\<lambda>_. []) (buffer bufdev_init) c"
    "hist c = [(?w, [])] @ (Buf_read 1 3, [0, 0x61, 0x62]) # []" by (metis append_Cons append_Nil)
  from buf_no_torn_read [OF c]
  have "[0, 0x61, 0x62] = read_window 1 3 (after buf_atomic [(?w, [])] (buffer bufdev_init))"
    by simp
  with c show ?thesis by (intro exI [of _ c]) simp
qed

text \<open>
  At most one process has the write device open for writing, whatever opens (for writing
  or not) and releases there are; while it is open a further open for writing is refused with
  \<open>EBUSY\<close>, and an open for reading never is.
\<close>

theorem one_writer:
  assumes "file_reach my_write_open my_write_release bufdev_init (st, files)"
    and "files i = Some True"
  shows "(files j = Some True \<longrightarrow> i = j) \<and> my_write_open True st = (Inl EBUSY, st) \<and>
    my_write_open False st = (Inr (), st)"
proof -
  have z: "writers bufdev_init \<le> 1" "writers bufdev_init = 0" by (simp_all add: bufdev_init_def)
  from writers.busy_refused [OF assms(1) z assms(2), of True] have "writers st \<noteq> 0"
    by (auto simp: my_write_open_def Let_def split: if_splits)
  then show ?thesis
    using writers.one_exclusive [OF assms(1) z assms(2), of j True] by (auto simp: my_write_open_def)
qed

theorem one_writer_witness:
  "\<exists>files. file_reach my_write_open my_write_release bufdev_init
      (bufdev_init\<lparr>writers := 1\<rparr>, files) \<and>
    my_write_open True (bufdev_init\<lparr>writers := 1\<rparr>) = (Inl EBUSY, bufdev_init\<lparr>writers := 1\<rparr>)"
proof -
  have r: "file_reach my_write_open my_write_release bufdev_init
      (bufdev_init\<lparr>writers := 1\<rparr>, [3 \<mapsto> True])"
    by (rule file_more [OF file_start], rule file_open)
      (simp_all add: my_write_open_def)
  with one_writer [OF r, of 3 3] show ?thesis by (simp del: bufdev_init_simps) blast
qed



end
