(* ===== verification/Hw04.thy ===== *)
theory Hw04
  imports Char_Device Buf_Device Module_Files
begin

text \<open>
  The module of homework 04, \<open>04/pb173.c\<close>, as a whole: every handler with the locks it takes,
  what it does while it holds them and the copies from and to user memory, and the tables of
  file operations of its three devices. The globals extend those of the greeting device, and
  the handlers leave anything a later version adds to them alone.
\<close>

section \<open>Globals\<close>

record hw04 = chardev +
  writers :: u32
  buffer :: "byte list"

definition hw04_start :: hw04 where
  "hw04_start = \<lparr>char_count = 4, open_count = 0, writers = 0, buffer = replicate 128 0\<rparr>"

section \<open>The greeting device\<close>

definition h04_open :: "bool \<Rightarrow> ('a hw04_scheme, errno + unit) handler" where
  "h04_open w = do {
     spin_lock ''count_lock'';
     store (\<lambda>g. g\<lparr>open_count := open_count g + 1\<rparr>);
     spin_unlock ''count_lock'';
     State_Monad.return (Inr ()) }"

definition h04_release :: "bool \<Rightarrow> ('a hw04_scheme, errno + unit) handler" where
  "h04_release w = do {
     spin_lock ''count_lock'';
     store (\<lambda>g. g\<lparr>open_count := open_count g - 1\<rparr>);
     spin_unlock ''count_lock'';
     State_Monad.return (Inr ()) }"

definition h04_write ::
  "env \<Rightarrow> addr \<Rightarrow> u64 \<Rightarrow> u64 \<Rightarrow> ('a hw04_scheme, (errno + int) \<times> u64) handler" where
  "h04_write e buf cnt off = do {
     str \<leftarrow> kmalloc e (cnt + 1);
     (nc, bs) \<leftarrow> copy_in e buf (unat cnt);
     (if str = NULL \<or> unat (cnt + 1) < unat cnt + 1
      then do { wild; State_Monad.return (Inl EFAULT, off) }
      else if nc \<noteq> 0 then State_Monad.return (Inl EFAULT, off)
      else do {
        emit [Call (Printk (cstr (bs @ [0]))), Call (Kfree str)];
        State_Monad.return (Inr (sint cnt), off) }) }"

definition h04_read ::
  "env \<Rightarrow> addr \<Rightarrow> u64 \<Rightarrow> u64 \<Rightarrow> ('a hw04_scheme, (errno + int) \<times> u64) handler" where
  "h04_read e buf cnt off = do {
     spin_lock ''char_lock'';
     chars_to_ret \<leftarrow> load char_count;
     spin_unlock ''char_lock'';
     (case strcpy (e_stk e) (greeting chars_to_ret) of
        Fault \<Rightarrow> do { wild; State_Monad.return (Inl EFAULT, off) }
      | Ret str \<Rightarrow> do {
          nc \<leftarrow> copy_out e buf str;
          State_Monad.return (if nc \<noteq> 0 then Inl EFAULT else Inr (sint chars_to_ret), off) }) }"

definition h04_ioctl ::
  "ioc_abi \<Rightarrow> env \<Rightarrow> u32 \<Rightarrow> u64 \<Rightarrow> ('a hw04_scheme, (errno + int) option) handler" where
  "h04_ioctl abi e cmd arg =
     (if IOC_TYPE abi cmd \<noteq> MY_IOC_MAGIC then State_Monad.return (Some (Inl ENOTTY))
      else if IOC_NR abi cmd \<noteq> 16 \<and> IOC_NR abi cmd \<noteq> 17
      then State_Monad.return (Some (Inl ENOTTY))
      else if cmd = MY_WRITE abi \<and> (arg < 1 \<or> arg > 4) then State_Monad.return (Some (Inl EINVAL))
      else do {
        (if cmd = MY_WRITE abi
         then do {
           spin_lock ''char_lock'';
           store (\<lambda>g. g\<lparr>char_count := ucast arg\<rparr>);
           spin_unlock ''char_lock'' }
         else State_Monad.return ());
        (if cmd = MY_READ abi
         then do {
           spin_lock ''char_lock'';
           char_count_cpy \<leftarrow> load char_count;
           spin_unlock ''char_lock'';
           nc \<leftarrow> copy_out e arg (le32 char_count_cpy);
           State_Monad.return (if nc \<noteq> 0 then Some (Inl EFAULT) else None) }
         else State_Monad.return None) })"

section \<open>The buffer\<close>

definition h04_buf_read ::
  "env \<Rightarrow> addr \<Rightarrow> u64 \<Rightarrow> u64 \<Rightarrow> ('a hw04_scheme, (errno + int) \<times> u64) handler" where
  "h04_buf_read e buf cnt off =
     (if 127 < sint off \<or> cnt = 0 then State_Monad.return (Inr 0, off)
      else do {
        mutex_lock ''buf_mutex'';
        b \<leftarrow> load buffer;
        r \<leftarrow> buf_out e buf cnt off b;
        mutex_unlock ''buf_mutex'';
        State_Monad.return r })"

definition h04_write_open :: "bool \<Rightarrow> ('a hw04_scheme, errno + unit) handler" where
  "h04_write_open w =
     (if w
      then do {
        spin_lock ''writers_lock'';
        dev_unavailable \<leftarrow> load writers;
        (if dev_unavailable = 0 then store (\<lambda>g. g\<lparr>writers := writers g + 1\<rparr>)
         else State_Monad.return ());
        spin_unlock ''writers_lock'';
        State_Monad.return (if dev_unavailable \<noteq> 0 then Inl EBUSY else Inr ()) }
      else State_Monad.return (Inr ()))"

definition h04_write_release :: "bool \<Rightarrow> ('a hw04_scheme, errno + unit) handler" where
  "h04_write_release w =
     (if w
      then do {
        spin_lock ''writers_lock'';
        store (\<lambda>g. g\<lparr>writers := writers g - 1\<rparr>);
        spin_unlock ''writers_lock'';
        State_Monad.return (Inr ()) }
      else State_Monad.return (Inr ()))"

text \<open>The loop over the bytes: store one and sleep.\<close>

fun h04_copy :: "byte list \<Rightarrow> u64 \<Rightarrow> nat list \<Rightarrow> ('a hw04_scheme, unit) handler" where
  "h04_copy cpy_buffer off [] = State_Monad.return ()"
| "h04_copy cpy_buffer off (i # idx) = do {
     b \<leftarrow> load buffer;
     (let j = int i + sint off
      in if 0 \<le> j \<and> j < int (length b) \<and> i < length cpy_buffer
         then store (\<lambda>g. g\<lparr>buffer := (buffer g)[nat j := cpy_buffer ! i]\<rparr>) else wild);
     msleep;
     h04_copy cpy_buffer off idx }"

definition h04_buf_write ::
  "env \<Rightarrow> addr \<Rightarrow> u64 \<Rightarrow> u64 \<Rightarrow> ('a hw04_scheme, (errno + int) \<times> u64) handler" where
  "h04_buf_write e buf cnt off =
     (if 127 < sint off then State_Monad.return (Inr 0, off)
      else let n = write_count off cnt in do {
        (if 5 < n then wild else State_Monad.return ());
        (nc, cpy_buffer) \<leftarrow> copy_in e buf (unat n);
        (if nc \<noteq> 0 then State_Monad.return (Inl EFAULT, off)
         else do {
           mutex_lock ''buf_mutex'';
           h04_copy cpy_buffer off [0..<unat n];
           mutex_unlock ''buf_mutex'';
           State_Monad.return (Inr (sint n), off + n) }) })"

section \<open>The tables\<close>

definition my_fops_04 :: "ioc_abi \<Rightarrow> 'a hw04_scheme file_ops" where
  "my_fops_04 abi = no_ops\<lparr>fop_open := Some h04_open, fop_write := Some h04_write,
     fop_read := Some h04_read, fop_release := Some h04_release,
     fop_ioctl := Some (h04_ioctl abi)\<rparr>"

definition buf_read_fops_04 :: "'a hw04_scheme file_ops" where
  "buf_read_fops_04 = no_ops\<lparr>fop_read := Some h04_buf_read\<rparr>"

definition buf_write_fops_04 :: "'a hw04_scheme file_ops" where
  "buf_write_fops_04 = no_ops\<lparr>fop_open := Some h04_write_open, fop_write := Some h04_buf_write,
     fop_release := Some h04_write_release\<rparr>"

text \<open>Reading \<open>bindata\<close>: \<open>core\<close> is the text section of the loaded module.\<close>

definition h04_myreader ::
  "byte list \<Rightarrow> env \<Rightarrow> addr \<Rightarrow> u64 \<Rightarrow> u64 \<Rightarrow> ('a hw04_scheme, (errno + int) \<times> u64) handler" where
  "h04_myreader core e user_buffer cnt position = buf_out e user_buffer cnt position core"

definition fops_debug_04 :: "byte list \<Rightarrow> 'a hw04_scheme file_ops" where
  "fops_debug_04 core = no_ops\<lparr>fop_read := Some (h04_myreader core)\<rparr>"

text \<open>The three devices, in the order in which the load registers them, and the debugfs file.\<close>

definition fops_04 :: "ioc_abi \<Rightarrow> byte list \<Rightarrow> nat \<Rightarrow> 'a hw04_scheme file_ops option" where
  "fops_04 abi core d =
     (if d = 0 then Some (my_fops_04 abi) else if d = 1 then Some buf_read_fops_04
      else if d = 2 then Some buf_write_fops_04
      else if d = 3 then Some (fops_debug_04 core) else None)"

section \<open>Every handler does what it may\<close>

text \<open>\<open>P\<close> is about whatever a later version adds to the globals.\<close>

definition ok_04 :: "('a \<Rightarrow> bool) \<Rightarrow> 'a hw04_scheme \<Rightarrow> bool" where
  "ok_04 P g \<longleftrightarrow> 1 \<le> char_count g \<and> char_count g \<le> 4 \<and> buf_terminated (buffer g) \<and> P (hw04.more g)"

lemma h04_open_good: "good (ok_04 P) quiet (h04_open w)"
  by (rule goodI) (simp add: h04_open_def ok_04_def quiet_def allowed_def)

lemma h04_release_good: "good (ok_04 P) quiet (h04_release w)"
  by (rule goodI) (simp add: h04_release_def ok_04_def quiet_def allowed_def)

lemma h04_write_good:
  assumes "env_ok e" and "vfs_args off cnt"
  shows "good (ok_04 P) allowed (h04_write e buf cnt off)"
  by (rule goodI, cases "e_cfu e buf (unat cnt)")
    (use assms in \<open>auto simp: h04_write_def allowed_def env_ok_def no_wrap\<close>)

lemma h04_write_neutral:
  assumes "env_full e" and "vfs_args off cnt"
  shows "good (ok_04 P) neutral (h04_write e buf cnt off)"
proof (rule goodI)
  fix g :: "'a hw04_scheme" and tr
  assume g: "ok_04 P g"
  obtain bs where "e_cfu e buf (unat cnt) = (0, bs)"
    using assms(1) unfolding env_full_def by (metis prod.collapse)
  with g assms show "\<exists>r g1 evs. run_state (h04_write e buf cnt off) \<lparr>globals = g, events = tr\<rparr> =
      (r, \<lparr>globals = g1, events = tr @ evs\<rparr>) \<and> ok_04 P g1 \<and> neutral evs"
    by (simp add: h04_write_def env_full_def env_ok_def no_wrap kmalloc_kfree_neutral)
qed

lemma h04_read_good: "env_ok e \<Longrightarrow> good (ok_04 P) quiet (h04_read e buf cnt off)"
  by (rule goodI) (simp add: h04_read_def ok_04_def quiet_def allowed_def env_ok_def greeting_fits)

lemma h04_ioctl_good: "good (ok_04 P) quiet (h04_ioctl abi e cmd arg)"
  by (rule goodI)
    (auto simp: h04_ioctl_def ok_04_def quiet_def allowed_def ucast_one_to_four not_less)

lemma h04_buf_read_good: "good (ok_04 P) quiet (h04_buf_read e buf cnt off)"
  by (rule goodI)
    (auto simp: h04_buf_read_def quiet_def allowed_def split: prod.split)

lemma h04_myreader_good: "good (ok_04 P) quiet (h04_myreader core e buf cnt off)"
  by (rule goodI) (auto simp: h04_myreader_def quiet_def allowed_def split: prod.split)

lemma h04_write_open_good: "good (ok_04 P) quiet (h04_write_open w)"
  by (rule goodI) (auto simp: h04_write_open_def ok_04_def quiet_def allowed_def)

lemma h04_write_release_good: "good (ok_04 P) quiet (h04_write_release w)"
  by (rule goodI) (auto simp: h04_write_release_def ok_04_def quiet_def allowed_def)

lemma h04_copy_run:
  fixes m :: "'a hw04_scheme machine"
  assumes "0 \<le> sint off"
    and "\<forall>i \<in> set idx. unat off + i < length (buffer (globals m)) \<and> i < length cpy"
  shows "run_state (h04_copy cpy off idx) m = ((), m\<lparr>
    globals := (globals m)\<lparr>buffer :=
      fold (\<lambda>i b. b[unat off + i := cpy ! i]) idx (buffer (globals m))\<rparr>,
    events := events m @ replicate (length idx) Sleep\<rparr>)"
  using assms(2)
proof (induction idx arbitrary: m)
  case Nil
  then show ?case by simp
next
  case (Cons i idx)
  obtain u where u: "sint off = int u" "unat off = u" using sint_nonneg assms(1) by blast
  have j: "nat (int i + sint off) = unat off + i" unfolding u by simp
  have "int i + sint off < int (length (buffer (globals m)))" using Cons.prems unfolding u by simp
  then show ?case using Cons j u by (simp add: Let_def)
qed

lemma write_count_le: "\<not> 5 < write_count off cnt"
  by (simp add: write_count_def Let_def)

lemma store_bytes_terminated:
  "buf_terminated b \<Longrightarrow> write_admitted off cnt cpy \<Longrightarrow> buf_terminated (store_bytes b (unat off) cpy)"
  using buf_atomic_keeps [of b "Buf_write off cnt cpy"] by simp

lemma h04_buf_write_good:
  assumes e: "env_ok e" and v: "vfs_args off cnt"
  shows "good (ok_04 P) quiet (h04_buf_write e buf cnt off)"
proof (rule goodI)
  fix g :: "'a hw04_scheme" and tr
  assume g: "ok_04 P g"
  obtain nc cpy where c: "e_cfu e buf (unat (write_count off cnt)) = (nc, cpy)"
    by (cases "e_cfu e buf (unat (write_count off cnt))")
  from e c have len: "length cpy = unat (write_count off cnt)"
    by (auto simp: env_ok_def intro: cfu_ok_length)
  show "\<exists>r g1 evs. run_state (h04_buf_write e buf cnt off) \<lparr>globals = g, events = tr\<rparr> =
      (r, \<lparr>globals = g1, events = tr @ evs\<rparr>) \<and> ok_04 P g1 \<and> quiet evs"
  proof (cases "127 < sint off \<or> nc \<noteq> 0")
    case True
    with g c show ?thesis
      by (auto simp: h04_buf_write_def quiet_def allowed_def Let_def write_count_le)
  next
    case False
    with v len have a: "write_admitted off cnt cpy" by (simp add: write_admitted_def)
    have "unat off + length cpy \<le> 127" by (rule write_admitted_fits [OF a])
    with g have "\<forall>i \<in> set [0..<length cpy]. unat off + i < length (buffer g) \<and> i < length cpy"
      by (auto simp: ok_04_def buf_terminated_def)
    with False c v len g store_bytes_terminated [OF _ a, of "buffer g"] show ?thesis
      by (simp add: h04_buf_write_def Let_def write_count_le h04_copy_run vfs_args_def
          store_bytes_def ok_04_def quiet_def allowed_def ctx_run_append)
  qed
qed

section \<open>The counters\<close>

definition counters :: "'a hw04_scheme \<Rightarrow> u32 \<times> u32" where
  "counters g = (open_count g, writers g)"

lemma counters_keep:
  "keeps ok counters h \<Longrightarrow> keeps ok open_count h"
  "keeps ok counters h \<Longrightarrow> keeps ok writers h"
  by (simp_all add: keeps_def counters_def)

lemma h04_copy_keeps:
  "counters (globals (snd (run_state (h04_copy cpy off idx) m))) = counters (globals m)"
  by (induction idx arbitrary: m) (simp_all add: counters_def Let_def)

lemma h04_copy_counters:
  "run_state (h04_copy cpy off idx) m = (u, m1) \<Longrightarrow> counters (globals m1) = counters (globals m)"
  using h04_copy_keeps [of cpy off idx m] by simp

lemma h04_keep:
  "keeps ok counters (h04_write e buf cnt off)"
  "keeps ok counters (h04_read e buf cnt off)"
  "keeps ok counters (h04_ioctl abi e cmd arg)"
  "keeps ok counters (h04_buf_read e buf cnt off)"
  "keeps ok counters (h04_buf_write e buf cnt off)"
  "keeps ok counters (h04_myreader core e buf cnt off)"
  by (auto simp: keeps_def h04_myreader_def h04_write_def h04_read_def h04_ioctl_def h04_buf_read_def
      h04_buf_write_def Let_def counters_def split: prod.split exec.split
      dest!: h04_copy_counters)

text \<open>What the opens and releases do, in one equation each.\<close>

lemma h04_runs:
  "run_state (h04_open w) m = (Inr (), m\<lparr>globals := (globals m)\<lparr>open_count := open_count (globals m) + 1\<rparr>,
     events := events m @ [Spin_lock ''count_lock'', Spin_unlock ''count_lock'']\<rparr>)"
  "run_state (h04_release w) m = (Inr (), m\<lparr>globals := (globals m)\<lparr>open_count := open_count (globals m) - 1\<rparr>,
     events := events m @ [Spin_lock ''count_lock'', Spin_unlock ''count_lock'']\<rparr>)"
  "run_state (h04_write_open w) m =
     (if \<not> w then (Inr (), m)
      else (if writers (globals m) = 0 then Inr () else Inl EBUSY,
        m\<lparr>globals := (if writers (globals m) = 0 then (globals m)\<lparr>writers := 1\<rparr> else globals m),
          events := events m @ [Spin_lock ''writers_lock'', Spin_unlock ''writers_lock'']\<rparr>))"
  "run_state (h04_write_release w) m =
     (if \<not> w then (Inr (), m)
      else (Inr (), m\<lparr>globals := (globals m)\<lparr>writers := writers (globals m) - 1\<rparr>,
        events := events m @ [Spin_lock ''writers_lock'', Spin_unlock ''writers_lock'']\<rparr>))"
  by (simp_all add: h04_open_def h04_release_def h04_write_open_def h04_write_release_def)

lemma fops_04_Some:
  "fops_04 abi core d = Some t \<longleftrightarrow> d = 0 \<and> t = my_fops_04 abi \<or> d = 1 \<and> t = buf_read_fops_04 \<or>
     d = 2 \<and> t = buf_write_fops_04 \<or> d = 3 \<and> t = fops_debug_04 core"
  by (auto simp: fops_04_def)

lemmas tables_04 = fops_04_Some my_fops_04_def buf_read_fops_04_def buf_write_fops_04_def
  fops_debug_04_def no_ops_def

lemmas h04_good = h04_open_good h04_release_good h04_read_good h04_ioctl_good h04_buf_read_good
  h04_buf_write_good h04_write_open_good h04_write_release_good h04_myreader_good
lemmas h04_allowed = h04_write_good h04_good [THEN good_quiet(1)]
lemmas h04_neutral = h04_write_neutral h04_good [THEN good_quiet(2)]

interpretation mod04: file_module "fops_04 abi core" "ok_04 P" allowed env_ok for abi core P
  by unfold_locales
    (auto simp: tables_04 allowed_append h04_allowed)

interpretation clean04: file_module "fops_04 abi core" "ok_04 P" neutral env_full for abi core P
  by unfold_locales
    (auto simp: tables_04 neutral_Nil neutral_append env_full_ok h04_neutral)

interpretation opens04: counted_files "fops_04 abi core" "ok_04 P" allowed env_ok open_count "\<lambda>d w. d = 0" for abi core P
  by unfold_locales
    (auto simp: tables_04 h04_keep counters_keep h04_runs split: if_splits)

interpretation writers04: single_holder "fops_04 abi core" "ok_04 P" allowed env_ok writers "\<lambda>d w. d = 2 \<and> w" for abi core P
  by unfold_locales
    (auto simp: tables_04 h04_keep counters_keep h04_runs split: if_splits)

section \<open>The pure models of the two components\<close>

definition dev_of :: "'a hw04_scheme \<Rightarrow> bufdev" where
  "dev_of g = \<lparr>bufdev.buffer = buffer g, bufdev.writers = writers g\<rparr>"

lemma truncate_simps [simp]:
  "char_count (chardev.truncate g) = char_count g" "open_count (chardev.truncate g) = open_count g"
  by (simp_all add: chardev.truncate_def)

lemma h04_read_implements:
  "implements m (h04_read e buf cnt off) (map_exec (\<lambda>(r, ws). ((r, off), globals m, ws, []))
     (my_read_copy (chardev.truncate (globals m)) (e_stk e) (e_ctu e) buf cnt))"
  by (cases "strcpy (e_stk e) (greeting (char_count (globals m)))"; cases m)
    (simp_all add: implements_def my_read_copy_def h04_read_def delivered_def Let_def)

lemma h04_write_implements:
  "implements m (h04_write e buf cnt off) (map_exec (\<lambda>(r, cs). ((map_sum id sint r, off), globals m, [], cs))
     (my_write (e_kmalloc e) (e_cfu e) buf cnt))"
  by (cases "e_cfu e buf (unat cnt)"; cases m)
    (simp add: implements_def my_write_def h04_write_def Let_def)

lemma h04_ioctl_implements:
  "implements m (h04_ioctl abi e cmd arg)
     (case my_unlocked_ioctl_04 abi (e_ctu e) cmd arg (chardev.truncate (globals m)) of
        (r, st1, ws) \<Rightarrow> Ret (r, (globals m)\<lparr>char_count := char_count st1\<rparr>, ws, []))"
  by (cases m) (simp add: implements_def my_unlocked_ioctl_04_def h04_ioctl_def delivered_def Let_def)

lemma h04_buf_read_implements:
  "implements m (h04_buf_read e buf cnt off)
     (case buf_read (e_srfb e) buf cnt off (dev_of (globals m)) of
        (r, off1, ws) \<Rightarrow> Ret ((map_sum id sint r, off1), globals m, ws, []))"
  by (cases "e_srfb e buf cnt off (buffer (globals m))"; cases m)
    (simp add: implements_def buf_read_def h04_buf_read_def dev_of_def)

lemma h04_copy_wild:
  "Wild \<in> set (events m) \<Longrightarrow> Wild \<in> set (events (snd (run_state (h04_copy cpy off idx) m)))"
  by (induction idx arbitrary: m) (simp_all add: Let_def)

lemma h04_copy_implements:
  "case buf_copy (buffer (globals m)) off cpy n i of
     Fault \<Rightarrow> Wild \<in> set (events (snd (run_state (h04_copy cpy off [i..<n]) m)))
   | Ret b \<Rightarrow> run_state (h04_copy cpy off [i..<n]) m = ((), m\<lparr>globals := (globals m)\<lparr>buffer := b\<rparr>,
       events := events m @ replicate (n - i) Sleep\<rparr>)"
proof (induction "n - i" arbitrary: i m)
  case 0
  then show ?case by (simp add: buf_copy.simps [of _ _ _ n i])
next
  case (Suc k)
  then have i: "i < n" by simp
  let ?j = "int i + sint off" and ?b = "buffer (globals m)"
  have idx: "[i..<n] = i # [Suc i..<n]" using i by (rule upt_conv_Cons)
  show ?case
  proof (cases "0 \<le> ?j \<and> ?j < int (length ?b) \<and> i < length cpy")
    case True
    let ?m = "m\<lparr>globals := (globals m)\<lparr>buffer := ?b[nat ?j := cpy ! i]\<rparr>, events := events m @ [Sleep]\<rparr>"
    have "replicate (n - i) Sleep = Sleep # replicate (n - Suc i) Sleep"
      using i by (simp flip: replicate_Suc add: Suc_diff_Suc)
    moreover have "k = n - Suc i" using Suc(2) by simp
    note IH = Suc(1) [OF this, of ?m]
    ultimately show ?thesis
      using IH i True
      by (cases "buf_copy (?b[nat ?j := cpy ! i]) off cpy n (Suc i)")
        (simp_all add: buf_copy.simps [of ?b off cpy n i] idx Let_def)
  next
    case False
    then show ?thesis using i
      by (auto simp: buf_copy.simps [of ?b off cpy n i] idx Let_def h04_copy_wild)
  qed
qed

lemma h04_buf_write_implements:
  "implements m (h04_buf_write e buf cnt off)
     (map_exec (\<lambda>(r, off1, st1). ((map_sum id sint r, off1),
          (globals m)\<lparr>buffer := bufdev.buffer st1\<rparr>, [], []))
        (buf_write (e_cfu e) buf cnt off (dev_of (globals m))))"
proof (cases "127 < sint off")
  case True
  then show ?thesis
    by (cases m) (simp add: implements_def buf_write_def h04_buf_write_def dev_of_def Let_def)
next
  case False
  let ?n = "write_count off cnt"
  obtain nc cpy where c: "e_cfu e buf (unat ?n) = (nc, cpy)" by (cases "e_cfu e buf (unat ?n)")
  let ?m = "m\<lparr>events := events m @ [Sleep, Mutex_lock ''buf_mutex'']\<rparr>"
  show ?thesis
    using False c h04_copy_implements [where m = ?m and off = off and cpy = cpy and n = "unat ?n" and i = 0]
    by (cases "buf_copy (buffer (globals m)) off cpy (unat ?n) 0"; cases m)
      (auto simp: implements_def buf_write_def h04_buf_write_def dev_of_def Let_def write_count_le
        split: prod.split)
qed

lemma h04_write_open_implements:
  "implements m (h04_write_open w)
     (case my_write_open w (dev_of (globals m)) of
        (r, st1) \<Rightarrow> Ret (r, (globals m)\<lparr>writers := bufdev.writers st1\<rparr>, [], []))"
  "implements m (h04_write_release w)
     (Ret (Inr (), (globals m)\<lparr>writers := bufdev.writers (my_write_release w (dev_of (globals m)))\<rparr>, [], []))"
  by (cases m; simp add: implements_def h04_runs my_write_open_def my_write_release_def dev_of_def Let_def)+

section \<open>Properties\<close>


end
