(* ===== verification/Mem_Device.thy ===== *)
theory Mem_Device
  imports Kernel
begin

text \<open>
  Loading and unloading of the character-device modules of the homeworks 02, 03, 04 and 06, and
  the memory device of homework 06: twenty megabytes that the load fills page by page with the
  addresses of the page, read and written through two devices. The hex dump of the module and
  the messages are not modelled. Misc devices are numbered in the order in which a module
  registers them; results the code ignores are ignored.
\<close>

section \<open>Load and unload\<close>

text \<open>The three debugfs entries.\<close>

record debugfs =
  debug_dir :: addr
  counter_file :: addr
  bindata_file :: addr

definition debugfs_up :: "debugfs \<Rightarrow> kcall list" where
  "debugfs_up d = [Debugfs_create (debug_dir d), Debugfs_create (counter_file d),
     Debugfs_create (bindata_file d)]"

definition debugfs_down :: "debugfs \<Rightarrow> kcall list" where
  "debugfs_down d = [Debugfs_remove (bindata_file d), Debugfs_remove (counter_file d),
     Debugfs_remove (debug_dir d)]"

text \<open>Reading \<open>bindata\<close>: the text section of the module itself.\<close>

definition myreader ::
  "simple_read \<Rightarrow> byte list \<Rightarrow> nat \<Rightarrow> addr \<Rightarrow> u64 \<Rightarrow> u64 \<Rightarrow> (errno + u64) \<times> u64 \<times> user_writes" where
  "myreader srfb module_core core_text_size user_buffer cnt position =
     srfb user_buffer cnt position (take core_text_size module_core)"

definition my_init_02 :: "(nat \<Rightarrow> int) \<Rightarrow> kcall list \<times> (errno + int)" where
  "my_init_02 misc = ([Misc_register 0 (misc 0)], Inr 0)"

definition my_exit_02 :: "kcall list" where
  "my_exit_02 = [Misc_deregister 0]"

definition my_init_03 :: "(nat \<Rightarrow> int) \<Rightarrow> debugfs \<Rightarrow> kcall list \<times> (errno + int)" where
  "my_init_03 misc d = ([Misc_register 0 (misc 0)] @ debugfs_up d, Inr 0)"

definition my_exit_03 :: "debugfs \<Rightarrow> kcall list" where
  "my_exit_03 d = [Misc_deregister 0] @ debugfs_down d"

definition my_init_04 :: "(nat \<Rightarrow> int) \<Rightarrow> debugfs \<Rightarrow> kcall list \<times> (errno + int)" where
  "my_init_04 misc d =
     ([Misc_register 0 (misc 0), Misc_register 1 (misc 1), Misc_register 2 (misc 2)] @
      debugfs_up d, Inr 0)"

definition my_exit_04 :: "debugfs \<Rightarrow> kcall list" where
  "my_exit_04 d = [Misc_deregister 0, Misc_deregister 1, Misc_deregister 2] @ debugfs_down d"

section \<open>The memory device\<close>

definition MEM_SIZE :: nat where "MEM_SIZE = 20971520"

text \<open>
  \<open>snprintf\<close> into a page: the text, cut to leave room for the zero. \<open>fmt virt phys\<close> is the text
  of the format for the two addresses.
\<close>

definition snprintf_page :: "byte list \<Rightarrow> byte list" where
  "snprintf_page text_bytes = take 4095 text_bytes @ [0]"

text \<open>
  The loop over the pages from byte \<open>i\<close> on: \<open>mem_buffer\<close> is the address of the buffer, \<open>mem\<close> its
  content, \<open>vmalloc_to_pfn\<close> the frame behind an address.
\<close>

function fill_pages ::
  "(u64 \<Rightarrow> u64) \<Rightarrow> (u64 \<Rightarrow> u64 \<Rightarrow> byte list) \<Rightarrow> addr \<Rightarrow> nat \<Rightarrow> byte list \<Rightarrow> byte list exec" where
  "fill_pages vmalloc_to_pfn fmt mem_buffer i mem =
     (if i < MEM_SIZE
      then let pfn = vmalloc_to_pfn (mem_buffer + of_nat i); phys = push_bit 12 pfn;
               s = snprintf_page (fmt (mem_buffer + of_nat i) phys)
           in if i + length s \<le> length mem
              then fill_pages vmalloc_to_pfn fmt mem_buffer (i + 4096) (blit mem i s) else Fault
      else Ret mem)"
  by pat_completeness auto
termination
  by (relation "measure (\<lambda>(_, _, _, i, _). MEM_SIZE - i)") auto

declare fill_pages.simps [simp del]

text \<open>The load: the calls, the content of the buffer and the result.\<close>

definition my_init_06 ::
  "(nat \<Rightarrow> int) \<Rightarrow> debugfs \<Rightarrow> (u64 \<Rightarrow> u64) \<Rightarrow> (u64 \<Rightarrow> u64 \<Rightarrow> byte list) \<Rightarrow> addr \<Rightarrow>
   (kcall list \<times> byte list \<times> (errno + int)) exec" where
  "my_init_06 misc d vmalloc_to_pfn fmt mem_buffer =
     (let tr = [Misc_register 0 (misc 0), Misc_register 1 (misc 1), Misc_register 2 (misc 2),
                Misc_register 3 (misc 3), Misc_register 4 (misc 4)] @ debugfs_up d @
               [Vmalloc mem_buffer]
      in if mem_buffer = NULL then Ret (tr, [], Inl ENOMEM)
         else exec_bind (fill_pages vmalloc_to_pfn fmt mem_buffer 0 (replicate MEM_SIZE 0))
                (\<lambda>mem. Ret (tr, mem, Inr 0)))"

definition my_exit_06 :: "debugfs \<Rightarrow> addr \<Rightarrow> kcall list" where
  "my_exit_06 d mem_buffer =
     [Misc_deregister 0, Misc_deregister 1, Misc_deregister 2, Misc_deregister 3,
      Misc_deregister 4] @ debugfs_down d @ (if mem_buffer \<noteq> NULL then [Vfree mem_buffer] else [])"

definition mem_buf_read ::
  "simple_read \<Rightarrow> addr \<Rightarrow> u64 \<Rightarrow> u64 \<Rightarrow> byte list \<Rightarrow> (errno + u64) \<times> u64 \<times> user_writes" where
  "mem_buf_read srfb buf cnt off mem = srfb buf cnt off (take MEM_SIZE mem)"

definition mem_buf_write ::
  "simple_write \<Rightarrow> addr \<Rightarrow> u64 \<Rightarrow> u64 \<Rightarrow> byte list \<Rightarrow> (errno + u64) \<times> u64 \<times> byte list" where
  "mem_buf_write swtb buf cnt off mem = swtb mem MEM_SIZE off buf cnt"

section \<open>Every page is filled\<close>

definition page_text :: "(u64 \<Rightarrow> u64) \<Rightarrow> (u64 \<Rightarrow> u64 \<Rightarrow> byte list) \<Rightarrow> addr \<Rightarrow> nat \<Rightarrow> byte list" where
  "page_text vmalloc_to_pfn fmt mem_buffer i =
     fmt (mem_buffer + of_nat i) (push_bit 12 (vmalloc_to_pfn (mem_buffer + of_nat i)))"

lemma length_snprintf_page: "length (snprintf_page t) \<le> 4096"
  by (simp add: snprintf_page_def)

lemma fill_pages_step:
  assumes "i < MEM_SIZE" and "length mem = MEM_SIZE" and "4096 dvd i"
  shows "fill_pages v2p fmt a i mem =
    fill_pages v2p fmt a (i + 4096) (blit mem i (snprintf_page (page_text v2p fmt a i)))"
proof -
  have "i + 4096 \<le> MEM_SIZE"
    using assms(1,3) by (auto simp: MEM_SIZE_def dvd_def)
  then have "i + length (snprintf_page (page_text v2p fmt a i)) \<le> length mem"
    using length_snprintf_page [of "page_text v2p fmt a i"] assms(2) by simp
  with assms(1) show ?thesis
    by (simp add: fill_pages.simps [of v2p fmt a i mem] Let_def page_text_def)
qed

text \<open>
  The content after the loop, byte by byte: the start of each page is its text and a zero, the
  rest of it is as before.
\<close>

definition filled :: "(u64 \<Rightarrow> u64) \<Rightarrow> (u64 \<Rightarrow> u64 \<Rightarrow> byte list) \<Rightarrow> addr \<Rightarrow> byte list \<Rightarrow> nat \<Rightarrow> byte" where
  "filled v2p fmt a mem j =
     (let s = snprintf_page (page_text v2p fmt a (4096 * (j div 4096)))
      in if j mod 4096 < length s then s ! (j mod 4096) else mem ! j)"

lemma fill_pages_result:
  assumes "i \<le> MEM_SIZE" and "4096 dvd i" and "length mem = MEM_SIZE"
  shows "\<exists>mem1. fill_pages v2p fmt a i mem = Ret mem1 \<and> length mem1 = MEM_SIZE \<and>
    (\<forall>j < MEM_SIZE. mem1 ! j = (if j < i then mem ! j else filled v2p fmt a mem j))"
  using assms
proof (induction "MEM_SIZE - i" arbitrary: i mem rule: less_induct)
  case less
  show ?case
  proof (cases "i < MEM_SIZE")
    case False
    with less.prems have i: "i = MEM_SIZE" by simp
    have "fill_pages v2p fmt a i mem = Ret mem"
      unfolding i by (simp add: fill_pages.simps [of v2p fmt a MEM_SIZE mem])
    with i less.prems show ?thesis by simp
  next
    case True
    let ?s = "snprintf_page (page_text v2p fmt a i)"
    let ?m = "blit mem i ?s"
    from less.prems(2) obtain k where k: "i = 4096 * k" by (auto simp: dvd_def)
    from True have i: "i + 4096 \<le> MEM_SIZE" unfolding k by (simp add: MEM_SIZE_def)
    have s: "length ?s \<le> 4096" by (rule length_snprintf_page)
    with i less.prems(3) have fits: "i + length ?s \<le> length mem" by simp
    have "MEM_SIZE - (i + 4096) < MEM_SIZE - i" using True by simp
    moreover have "4096 dvd i + 4096" using less.prems(2) by simp
    moreover have "length ?m = MEM_SIZE" using fits less.prems(3) by simp
    ultimately obtain mem1 where m1: "fill_pages v2p fmt a (i + 4096) ?m = Ret mem1"
      "length mem1 = MEM_SIZE"
      "\<forall>j < MEM_SIZE. mem1 ! j = (if j < i + 4096 then ?m ! j else filled v2p fmt a ?m j)"
      using less.hyps [of "i + 4096" ?m] i by blast
    have "mem1 ! j = (if j < i then mem ! j else filled v2p fmt a mem j)" if j: "j < MEM_SIZE" for j
    proof -
      have mj: "?m ! j = (if i \<le> j \<and> j < i + length ?s then ?s ! (j - i) else mem ! j)"
        using fits j less.prems(3) by (simp add: nth_blit)
      consider "j < i" | "i \<le> j" "j < i + 4096" | "i + 4096 \<le> j" by linarith
      then show ?thesis
      proof cases
        case 1
        with m1(3) j mj show ?thesis by simp
      next
        case 2
        then have d: "j div 4096 = k" "j mod 4096 = j - i"
          unfolding k by (simp_all add: div_nat_eqI modulo_nat_def)
        from 2 have "j - i < length ?s \<longleftrightarrow> j < i + length ?s" by linarith
        with 2 m1(3) j mj d show ?thesis by (simp add: filled_def k [symmetric] Let_def)
      next
        case 3
        with m1(3) j mj s show ?thesis by (simp add: filled_def Let_def)
      qed
    qed
    with m1 True less.prems show ?thesis by (simp add: fill_pages_step)
  qed
qed

lemma filled_page:
  assumes "\<forall>j < MEM_SIZE. mem ! j = filled v2p fmt a (replicate MEM_SIZE 0) j"
    and "length mem = MEM_SIZE" and "k < 5120"
  shows "take 4096 (drop (4096 * k) mem) = (let s = snprintf_page (page_text v2p fmt a (4096 * k))
    in s @ replicate (4096 - length s) 0)"
proof -
  let ?s = "snprintf_page (page_text v2p fmt a (4096 * k))"
  have len: "length ?s \<le> 4096" by (rule length_snprintf_page)
  have fit: "4096 * k + 4096 \<le> MEM_SIZE" using assms(3) by (simp add: MEM_SIZE_def)
  have "take 4096 (drop (4096 * k) mem) = ?s @ replicate (4096 - length ?s) 0"
  proof (rule nth_equalityI)
    show "length (take 4096 (drop (4096 * k) mem)) = length (?s @ replicate (4096 - length ?s) 0)"
      using len fit assms(2) by simp
    fix j assume "j < length (take 4096 (drop (4096 * k) mem))"
    then have j: "j < 4096" by simp
    then have d: "(4096 * k + j) div 4096 = k" "(4096 * k + j) mod 4096 = j" by simp_all
    have lt: "4096 * k + j < MEM_SIZE" using fit j by linarith
    then have "mem ! (4096 * k + j) = (if j < length ?s then ?s ! j else 0)"
      using assms(1) j by (simp add: filled_def d Let_def)
    with j lt len assms(2) show "take 4096 (drop (4096 * k) mem) ! j = (?s @ replicate (4096 - length ?s) 0) ! j"
      by (simp add: nth_append)
  qed
  then show ?thesis by (simp add: Let_def)
qed

section \<open>Resources\<close>

definition debugfs_res :: "debugfs \<Rightarrow> kres multiset" where
  "debugfs_res d = (\<Sum>p \<leftarrow> [debug_dir d, counter_file d, bindata_file d].
     if p \<noteq> NULL then {#DebugFile p#} else {#})"

lemma debugfs_up_run: "kres_run (debugfs_up d) H = Some (H + debugfs_res d)"
  by (auto simp: debugfs_up_def debugfs_res_def)

lemma debugfs_down_run: "kres_run (debugfs_down d) (H + debugfs_res d) = Some H"
  by (auto simp: debugfs_down_def debugfs_res_def give_back_def)

definition misc_res :: "nat \<Rightarrow> kres multiset" where
  "misc_res n = mset (map MiscDev [0..<n])"

lemma misc_res_simps:
  "misc_res (Suc 0) = {#MiscDev 0#}" "misc_res 3 = {#MiscDev 0, MiscDev 1, MiscDev 2#}"
  "misc_res 5 = {#MiscDev 0, MiscDev 1, MiscDev 2, MiscDev 3, MiscDev 4#}"
  by (simp_all add: misc_res_def upt_conv_Cons numeral_eq_Suc)

lemma load_unload_02:
  "my_init_02 (\<lambda>_. 0) = (tr, r) \<Longrightarrow> kres_run (tr @ my_exit_02) {#} = Some {#}"
  by (auto simp: my_init_02_def my_exit_02_def give_back_def)

lemma misc_down:
  "kres_run [Misc_deregister 0] (misc_res 1 + H) = Some H"
  "kres_run [Misc_deregister 0, Misc_deregister 1, Misc_deregister 2] (misc_res 3 + H) = Some H"
  "kres_run [Misc_deregister 0, Misc_deregister 1, Misc_deregister 2, Misc_deregister 3,
     Misc_deregister 4] (misc_res 5 + H) = Some H"
  by (simp_all add: misc_res_simps give_back_def)

lemma load_unload_03:
  assumes "my_init_03 (\<lambda>_. 0) d = (tr, r)"
  shows "kres_run (tr @ my_exit_03 d) {#} = Some {#}"
proof -
  have "kres_run tr {#} = Some (misc_res 1 + debugfs_res d)"
    using assms by (auto simp: my_init_03_def kres_run_append debugfs_up_run misc_res_simps)
  moreover have "kres_run (my_exit_03 d) (misc_res 1 + debugfs_res d) = Some {#}"
    unfolding my_exit_03_def kres_run_append misc_down by (simp add: debugfs_down_run [of d "{#}", simplified])
  ultimately show ?thesis by (simp add: kres_run_append)
qed

lemma load_unload_04:
  assumes "my_init_04 (\<lambda>_. 0) d = (tr, r)"
  shows "kres_run (tr @ my_exit_04 d) {#} = Some {#}"
proof -
  have "kres_run tr {#} = Some (misc_res 3 + debugfs_res d)"
    using assms by (auto simp: my_init_04_def kres_run_append debugfs_up_run misc_res_simps add_mset_commute)
  moreover have "kres_run (my_exit_04 d) (misc_res 3 + debugfs_res d) = Some {#}"
    unfolding my_exit_04_def kres_run_append misc_down by (simp add: debugfs_down_run [of d "{#}", simplified])
  ultimately show ?thesis by (simp add: kres_run_append)
qed

definition init_06_calls :: "debugfs \<Rightarrow> addr \<Rightarrow> kcall list" where
  "init_06_calls d a = [Misc_register 0 0, Misc_register 1 0, Misc_register 2 0, Misc_register 3 0,
     Misc_register 4 0] @ debugfs_up d @ [Vmalloc a]"

lemma init_06_run:
  "kres_run (init_06_calls d a) {#} =
   Some (misc_res 5 + debugfs_res d + (if a \<noteq> NULL then {#VMem a#} else {#}))"
  by (simp add: init_06_calls_def kres_run_append debugfs_up_run misc_res_simps add_mset_commute)

lemma exit_06_run:
  "a \<noteq> NULL \<Longrightarrow> kres_run (my_exit_06 d a) (misc_res 5 + (debugfs_res d + {#VMem a#})) = Some {#}"
  unfolding my_exit_06_def kres_run_append misc_down
  using debugfs_down_run [of d "{#VMem a#}"] by (simp add: kres_run_append give_back_def add.commute)

section \<open>Properties\<close>

text \<open>
  C39: When the twenty megabytes can be allocated the load fills them and succeeds, without a
  write outside the buffer: each of the 5120 pages then holds the text for its own virtual and
  physical address, cut to 4095 bytes if it were longer, and nothing but zeros after it.
\<close>

theorem mem_pages_filled:
  assumes "mem_buffer \<noteq> NULL"
  shows "\<exists>tr mem. my_init_06 misc d v2p fmt mem_buffer = Ret (tr, mem, Inr 0) \<and>
    length mem = MEM_SIZE \<and>
    (\<forall>k < 5120. take 4096 (drop (4096 * k) mem) =
       (let s = snprintf_page (page_text v2p fmt mem_buffer (4096 * k))
        in s @ replicate (4096 - length s) 0))"
proof -
  obtain mem where m: "fill_pages v2p fmt mem_buffer 0 (replicate MEM_SIZE 0) = Ret mem"
    "length mem = MEM_SIZE" "\<forall>j < MEM_SIZE. mem ! j = filled v2p fmt mem_buffer (replicate MEM_SIZE 0) j"
    using fill_pages_result [of 0 "replicate MEM_SIZE 0" v2p fmt mem_buffer] by auto
  then have "\<forall>k < 5120. take 4096 (drop (4096 * k) mem) =
       (let s = snprintf_page (page_text v2p fmt mem_buffer (4096 * k))
        in s @ replicate (4096 - length s) 0)"
    using filled_page [OF m(3) m(2)] by blast
  with m assms show ?thesis by (simp add: my_init_06_def Let_def)
qed

theorem mem_pages_filled_witness:
  "\<exists>tr mem. my_init_06 (\<lambda>_. 0) \<lparr>debug_dir = 1, counter_file = 2, bindata_file = 3\<rparr> id
      (\<lambda>virt phys. str_bytes ''page'') 0x10000 = Ret (tr, mem, Inr 0) \<and>
    take 5 (drop (4096 * 7) mem) = str_bytes ''page'' @ [0]"
proof -
  have nn: "(0x10000 :: addr) \<noteq> NULL" by simp
  from mem_pages_filled [OF nn, of "\<lambda>_. 0" "\<lparr>debug_dir = 1, counter_file = 2, bindata_file = 3\<rparr>"
      id "\<lambda>virt phys. str_bytes ''page''"]
  obtain tr mem where m: "my_init_06 (\<lambda>_. 0) \<lparr>debug_dir = 1, counter_file = 2, bindata_file = 3\<rparr> id
      (\<lambda>virt phys. str_bytes ''page'') 0x10000 = Ret (tr, mem, Inr 0)"
    "\<forall>k < 5120. take 4096 (drop (4096 * k) mem) =
       (let s = snprintf_page (page_text id (\<lambda>virt phys. str_bytes ''page'') 0x10000 (4096 * k))
        in s @ replicate (4096 - length s) 0)" by blast
  have "take 4096 (drop 28672 mem) = str_bytes ''page'' @ [0] @ replicate 4091 0"
    using m(2) [rule_format, of 7] by (simp add: snprintf_page_def page_text_def Let_def)
  then have "take 5 (take 4096 (drop 28672 mem)) = str_bytes ''page'' @ [0]" by simp
  with m(1) show ?thesis by auto
qed

text \<open>
  C40: Loading and unloading the modules of the homeworks 02, 03, 04 and 06 leaves nothing
  behind when the devices can be registered. When homework 06 cannot allocate its buffer the
  load fails with \<open>ENOMEM\<close>, and its five devices and its debugfs files stay registered.
\<close>

theorem modules_load_unload:
  assumes "my_init_06 (\<lambda>_. 0) d v2p fmt mem_buffer = Ret (tr, mem, r)"
  shows "kres_run (fst (my_init_02 (\<lambda>_. 0)) @ my_exit_02) {#} = Some {#} \<and>
    kres_run (fst (my_init_03 (\<lambda>_. 0) d) @ my_exit_03 d) {#} = Some {#} \<and>
    kres_run (fst (my_init_04 (\<lambda>_. 0) d) @ my_exit_04 d) {#} = Some {#} \<and>
    (if mem_buffer = NULL then r = Inl ENOMEM \<and> kres_run tr {#} = Some (misc_res 5 + debugfs_res d)
     else r = Inr 0 \<and> kres_run (tr @ my_exit_06 d mem_buffer) {#} = Some {#})"
proof -
  have tr: "tr = init_06_calls d mem_buffer" "r = (if mem_buffer = NULL then Inl ENOMEM else Inr 0)"
    using assms by (auto simp: my_init_06_def init_06_calls_def exec_bind_Ret_iff Let_def split: if_splits)
  then have "if mem_buffer = NULL then r = Inl ENOMEM \<and> kres_run tr {#} = Some (misc_res 5 + debugfs_res d)
     else r = Inr 0 \<and> kres_run (tr @ my_exit_06 d mem_buffer) {#} = Some {#}"
    using init_06_run [of d mem_buffer] exit_06_run [of mem_buffer d]
    by (cases "mem_buffer = NULL") (simp_all add: kres_run_append add.assoc)
  then show ?thesis
    using load_unload_02 load_unload_03 [of d] load_unload_04 [of d] by (metis prod.collapse)
qed

theorem modules_load_unload_witness:
  "\<exists>tr. my_init_06 (\<lambda>_. 0) \<lparr>debug_dir = 1, counter_file = 0, bindata_file = 3\<rparr> id (\<lambda>_ _. []) NULL =
      Ret (tr, [], Inl ENOMEM) \<and>
    kres_run tr {#} = Some (misc_res 5 + {#DebugFile 1, DebugFile 3#})"
proof -
  let ?d = "\<lparr>debug_dir = 1, counter_file = 0, bindata_file = 3\<rparr>"
  obtain tr where t: "my_init_06 (\<lambda>_. 0) ?d id (\<lambda>_ _. []) NULL = Ret (tr, [], Inl ENOMEM)"
    by (simp add: my_init_06_def Let_def)
  with modules_load_unload [OF t] show ?thesis by (simp add: debugfs_res_def)
qed

end
