(* ===== verification/Hw06.thy ===== *)
theory Hw06
  imports Hw04 Mem_Device
begin

text \<open>
  The module of homework 06, \<open>06/pb173.c\<close>, as a whole: the handlers of homework 04 from their own
  text in this file, the memory device, the tables of its five devices, and what holds over the
  module's life from load to unload, whatever processes do with the devices.
\<close>

section \<open>Globals\<close>

text \<open>\<open>mem_buffer\<close> is NULL or the memory it points to.\<close>

record hw06 = hw04 +
  mem_buffer :: "byte list option"

definition hw06_start :: "byte list option \<Rightarrow> hw06" where
  "hw06_start mem = \<lparr>char_count = 4, open_count = 0, writers = 0, buffer = replicate 128 0,
     mem_buffer = mem\<rparr>"

section \<open>The greeting device\<close>

definition h06_open :: "bool \<Rightarrow> (hw06, errno + unit) handler" where
  "h06_open w = do {
     spin_lock ''count_lock'';
     store (\<lambda>g. g\<lparr>open_count := open_count g + 1\<rparr>);
     spin_unlock ''count_lock'';
     State_Monad.return (Inr ()) }"

definition h06_release :: "bool \<Rightarrow> (hw06, errno + unit) handler" where
  "h06_release w = do {
     spin_lock ''count_lock'';
     store (\<lambda>g. g\<lparr>open_count := open_count g - 1\<rparr>);
     spin_unlock ''count_lock'';
     State_Monad.return (Inr ()) }"

definition h06_write ::
  "env \<Rightarrow> addr \<Rightarrow> u64 \<Rightarrow> u64 \<Rightarrow> (hw06, (errno + int) \<times> u64) handler" where
  "h06_write e buf cnt off = do {
     str \<leftarrow> kmalloc e (cnt + 1);
     (nc, bs) \<leftarrow> copy_in e buf (unat cnt);
     (if str = NULL \<or> unat (cnt + 1) < unat cnt + 1
      then do { wild; State_Monad.return (Inl EFAULT, off) }
      else if nc \<noteq> 0 then State_Monad.return (Inl EFAULT, off)
      else do {
        emit [Call (Printk (cstr (bs @ [0]))), Call (Kfree str)];
        State_Monad.return (Inr (sint cnt), off) }) }"

definition h06_read ::
  "env \<Rightarrow> addr \<Rightarrow> u64 \<Rightarrow> u64 \<Rightarrow> (hw06, (errno + int) \<times> u64) handler" where
  "h06_read e buf cnt off = do {
     spin_lock ''char_lock'';
     chars_to_ret \<leftarrow> load char_count;
     spin_unlock ''char_lock'';
     (case strcpy (e_stk e) (greeting chars_to_ret) of
        Fault \<Rightarrow> do { wild; State_Monad.return (Inl EFAULT, off) }
      | Ret str \<Rightarrow> do {
          nc \<leftarrow> copy_out e buf str;
          State_Monad.return (if nc \<noteq> 0 then Inl EFAULT else Inr (sint chars_to_ret), off) }) }"

definition h06_ioctl ::
  "ioc_abi \<Rightarrow> env \<Rightarrow> u32 \<Rightarrow> u64 \<Rightarrow> (hw06, (errno + int) option) handler" where
  "h06_ioctl abi e cmd arg =
     (if IOC_TYPE abi cmd \<noteq> MY_IOC_MAGIC then State_Monad.return (Some (Inl ENOTTY))
      else if IOC_NR abi cmd \<noteq> 16 \<and> IOC_NR abi cmd \<noteq> 17
      then State_Monad.return (Some (Inl ENOTTY))
      else if cmd = MY_WRITE abi \<and> (arg < 1 \<or> arg > 4) then State_Monad.return (Some (Inl EINVAL))
      else do {
        (if cmd = MY_WRITE abi
         then do {
           spin_lock ''char_lock'';
           store (\<lambda>g. g\<lparr>char_count := ucast arg\<rparr>);
           spin_unlock ''char_lock'' }
         else State_Monad.return ());
        (if cmd = MY_READ abi
         then do {
           spin_lock ''char_lock'';
           char_count_cpy \<leftarrow> load char_count;
           spin_unlock ''char_lock'';
           nc \<leftarrow> copy_out e arg (le32 char_count_cpy);
           State_Monad.return (Some (if nc \<noteq> 0 then Inl EFAULT else Inr 0)) }
         else State_Monad.return (Some (Inr 0))) })"

section \<open>The buffer\<close>

definition h06_buf_read ::
  "env \<Rightarrow> addr \<Rightarrow> u64 \<Rightarrow> u64 \<Rightarrow> (hw06, (errno + int) \<times> u64) handler" where
  "h06_buf_read e buf cnt off =
     (if 127 < sint off \<or> cnt = 0 then State_Monad.return (Inr 0, off)
      else do {
        mutex_lock ''buf_mutex'';
        b \<leftarrow> load buffer;
        r \<leftarrow> buf_out e buf cnt off b;
        mutex_unlock ''buf_mutex'';
        State_Monad.return r })"

definition h06_write_open :: "bool \<Rightarrow> (hw06, errno + unit) handler" where
  "h06_write_open w =
     (if w
      then do {
        spin_lock ''writers_lock'';
        dev_unavailable \<leftarrow> load writers;
        (if dev_unavailable = 0 then store (\<lambda>g. g\<lparr>writers := writers g + 1\<rparr>)
         else State_Monad.return ());
        spin_unlock ''writers_lock'';
        State_Monad.return (if dev_unavailable \<noteq> 0 then Inl EBUSY else Inr ()) }
      else State_Monad.return (Inr ()))"

definition h06_write_release :: "bool \<Rightarrow> (hw06, errno + unit) handler" where
  "h06_write_release w =
     (if w
      then do {
        spin_lock ''writers_lock'';
        store (\<lambda>g. g\<lparr>writers := writers g - 1\<rparr>);
        spin_unlock ''writers_lock'';
        State_Monad.return (Inr ()) }
      else State_Monad.return (Inr ()))"

text \<open>The loop over the bytes: store one and sleep.\<close>

fun h06_copy :: "byte list \<Rightarrow> u64 \<Rightarrow> nat list \<Rightarrow> (hw06, unit) handler" where
  "h06_copy cpy_buffer off [] = State_Monad.return ()"
| "h06_copy cpy_buffer off (i # idx) = do {
     b \<leftarrow> load buffer;
     (let j = int i + sint off
      in if 0 \<le> j \<and> j < int (length b) \<and> i < length cpy_buffer
         then store (\<lambda>g. g\<lparr>buffer := (buffer g)[nat j := cpy_buffer ! i]\<rparr>) else wild);
     msleep;
     h06_copy cpy_buffer off idx }"

definition h06_buf_write ::
  "env \<Rightarrow> addr \<Rightarrow> u64 \<Rightarrow> u64 \<Rightarrow> (hw06, (errno + int) \<times> u64) handler" where
  "h06_buf_write e buf cnt off =
     (if 127 < sint off then State_Monad.return (Inr 0, off)
      else let n = write_count off cnt in do {
        (if 5 < n then wild else State_Monad.return ());
        (nc, cpy_buffer) \<leftarrow> copy_in e buf (unat n);
        (if nc \<noteq> 0 then State_Monad.return (Inl EFAULT, off)
         else do {
           mutex_lock ''buf_mutex'';
           h06_copy cpy_buffer off [0..<unat n];
           mutex_unlock ''buf_mutex'';
           State_Monad.return (Inr (sint n), off + n) }) })"

section \<open>The tables\<close>

definition my_fops_06 :: "ioc_abi \<Rightarrow> hw06 file_ops" where
  "my_fops_06 abi = no_ops\<lparr>fop_open := Some h06_open, fop_write := Some h06_write,
     fop_read := Some h06_read, fop_release := Some h06_release,
     fop_ioctl := Some (h06_ioctl abi)\<rparr>"

definition buf_read_fops_06 :: "hw06 file_ops" where
  "buf_read_fops_06 = no_ops\<lparr>fop_read := Some h06_buf_read\<rparr>"

definition buf_write_fops_06 :: "hw06 file_ops" where
  "buf_write_fops_06 = no_ops\<lparr>fop_open := Some h06_write_open, fop_write := Some h06_buf_write,
     fop_release := Some h06_write_release\<rparr>"

text \<open>Reading \<open>bindata\<close>: \<open>core\<close> is the text section of the loaded module.\<close>

definition h06_myreader ::
  "byte list \<Rightarrow> env \<Rightarrow> addr \<Rightarrow> u64 \<Rightarrow> u64 \<Rightarrow> (hw06, (errno + int) \<times> u64) handler" where
  "h06_myreader core e user_buffer cnt position = buf_out e user_buffer cnt position core"

definition fops_debug_06 :: "byte list \<Rightarrow> hw06 file_ops" where
  "fops_debug_06 core = no_ops\<lparr>fop_read := Some (h06_myreader core)\<rparr>"

section \<open>The memory device\<close>

definition h06_mem_read ::
  "env \<Rightarrow> addr \<Rightarrow> u64 \<Rightarrow> u64 \<Rightarrow> (hw06, (errno + int) \<times> u64) handler" where
  "h06_mem_read e buf cnt off = do {
     mem \<leftarrow> load mem_buffer;
     (case mem of
        None \<Rightarrow> do { wild; State_Monad.return (Inl EFAULT, off) }
      | Some b \<Rightarrow> buf_out e buf cnt off (take MEM_SIZE b)) }"

definition h06_mem_write ::
  "env \<Rightarrow> addr \<Rightarrow> u64 \<Rightarrow> u64 \<Rightarrow> (hw06, (errno + int) \<times> u64) handler" where
  "h06_mem_write e buf cnt off = do {
     mem \<leftarrow> load mem_buffer;
     (case mem of
        None \<Rightarrow> do { wild; State_Monad.return (Inl EFAULT, off) }
      | Some b \<Rightarrow> do {
          (r, off1, b1) \<leftarrow> buf_in e buf cnt off b MEM_SIZE;
          store (\<lambda>g. g\<lparr>mem_buffer := Some b1\<rparr>);
          State_Monad.return (r, off1) }) }"

definition mem_buf_read_fops :: "hw06 file_ops" where
  "mem_buf_read_fops = no_ops\<lparr>fop_read := Some h06_mem_read\<rparr>"

definition mem_buf_write_fops :: "hw06 file_ops" where
  "mem_buf_write_fops = no_ops\<lparr>fop_write := Some h06_mem_write\<rparr>"

text \<open>The five devices, in the order in which the load registers them, and the debugfs file.\<close>

definition fops_06 :: "ioc_abi \<Rightarrow> byte list \<Rightarrow> nat \<Rightarrow> hw06 file_ops option" where
  "fops_06 abi core d =
     (if d = 0 then Some (my_fops_06 abi) else if d = 1 then Some buf_read_fops_06
      else if d = 2 then Some buf_write_fops_06 else if d = 3 then Some mem_buf_read_fops
      else if d = 4 then Some mem_buf_write_fops
      else if d = 5 then Some (fops_debug_06 core) else None)"

section \<open>The handlers of homework 04\<close>

lemma h06_copy_same: "h06_copy cpy off idx = h04_copy cpy off idx"
  by (induction idx) simp_all

lemma h06_same:
  "h06_open = h04_open" "h06_release = h04_release" "h06_write = h04_write" "h06_read = h04_read"
  "h06_buf_read = h04_buf_read" "h06_write_open = h04_write_open"
  "h06_write_release = h04_write_release" "h06_buf_write = h04_buf_write"
  "h06_myreader = h04_myreader"
  by (intro ext, simp only: h06_open_def h04_open_def h06_release_def h04_release_def h06_write_def
      h04_write_def h06_read_def h04_read_def h06_buf_read_def h04_buf_read_def
      h06_write_open_def h04_write_open_def h06_write_release_def h04_write_release_def
      h06_buf_write_def h04_buf_write_def h06_myreader_def h04_myreader_def h06_copy_same)+

lemma h06_ioctl_same:
  "h06_ioctl abi e cmd arg = do {
     r \<leftarrow> h04_ioctl abi e cmd arg;
     State_Monad.return (Some (case r of None \<Rightarrow> Inr 0 | Some x \<Rightarrow> x)) }"
  by (rule state_ext) (simp add: h06_ioctl_def h04_ioctl_def)

section \<open>Every handler does what it may\<close>

definition ok_06 :: "hw06 \<Rightarrow> bool" where
  "ok_06 g \<longleftrightarrow> 1 \<le> char_count g \<and> char_count g \<le> 4 \<and> buf_terminated (buffer g) \<and>
     (\<exists>b. mem_buffer g = Some b \<and> length b = MEM_SIZE)"

definition mem_ok :: "unit hw06_ext \<Rightarrow> bool" where
  "mem_ok x \<longleftrightarrow> (\<exists>b. x = hw06.fields (Some b) \<and> length b = MEM_SIZE)"

lemma ok_06_eq: "ok_06 = ok_04 mem_ok"
proof
  fix g :: hw06
  have "hw04.more g = hw06.fields (mem_buffer g)" by (cases g) (simp add: hw06.defs)
  moreover have "hw06.fields x = hw06.fields y \<longleftrightarrow> x = y" for x y by (simp add: hw06.defs)
  ultimately show "ok_06 g = ok_04 mem_ok g" by (simp add: ok_06_def ok_04_def mem_ok_def)
qed

lemma good_return:
  "good ok fine h \<Longrightarrow> good ok fine (do { r \<leftarrow> h; State_Monad.return (f r) })"
  by (simp add: good_def Let_def split_def)

lemma keeps_return:
  "keeps ok counter h \<Longrightarrow> keeps ok counter (do { r \<leftarrow> h; State_Monad.return (f r) })"
  by (simp add: keeps_def split_def)

lemma h06_ioctl_good: "good ok_06 quiet (h06_ioctl abi e cmd arg)"
  unfolding h06_ioctl_same ok_06_eq by (rule good_return) (rule h04_ioctl_good)

lemma h06_mem_read_good: "good ok_06 quiet (h06_mem_read e buf cnt off)"
  by (rule goodI) (auto simp: h06_mem_read_def ok_06_def quiet_def allowed_def split: prod.split)

lemma h06_mem_write_good:
  assumes "env_ok e" and "vfs_args off cnt"
  shows "good ok_06 quiet (h06_mem_write e buf cnt off)"
proof (rule goodI)
  fix g tr
  assume g: "ok_06 g"
  then obtain b where b: "mem_buffer g = Some b" "length b = MEM_SIZE" by (auto simp: ok_06_def)
  obtain r off1 b1 where s: "e_swtb e b MEM_SIZE off buf cnt = (r, off1, b1)"
    by (cases "e_swtb e b MEM_SIZE off buf cnt")
  have "length b1 = length b"
    using assms b s by (intro swtb_ok_length [of "e_swtb e"]) (simp_all add: env_ok_def vfs_args_def)
  with g b s show "\<exists>r g1 evs. run_state (h06_mem_write e buf cnt off) \<lparr>globals = g, events = tr\<rparr> =
      (r, \<lparr>globals = g1, events = tr @ evs\<rparr>) \<and> ok_06 g1 \<and> quiet evs"
    by (simp add: h06_mem_write_def ok_06_def quiet_def allowed_def)
qed

lemma h06_keep:
  "keeps ok counters (h06_ioctl abi e cmd arg)"
  "keeps ok counters (h06_mem_read e buf cnt off)"
  "keeps ok counters (h06_mem_write e buf cnt off)"
  unfolding h06_ioctl_same
  by (rule keeps_return, rule h04_keep)
    (auto simp: keeps_def h06_mem_read_def h06_mem_write_def counters_def split: option.split prod.split)

section \<open>The module\<close>

lemma fops_06_Some:
  "fops_06 abi core d = Some t \<longleftrightarrow> d = 0 \<and> t = my_fops_06 abi \<or> d = 1 \<and> t = buf_read_fops_06 \<or>
     d = 2 \<and> t = buf_write_fops_06 \<or> d = 3 \<and> t = mem_buf_read_fops \<or>
     d = 4 \<and> t = mem_buf_write_fops \<or> d = 5 \<and> t = fops_debug_06 core"
  by (auto simp: fops_06_def)

lemmas tables_06 = fops_06_Some my_fops_06_def buf_read_fops_06_def buf_write_fops_06_def
  mem_buf_read_fops_def mem_buf_write_fops_def fops_debug_06_def no_ops_def h06_same

lemmas h06_new = h06_ioctl_good h06_mem_read_good h06_mem_write_good
lemmas h06_allowed = h04_allowed [where P = mem_ok, folded ok_06_eq] h06_new [THEN good_quiet(1)]
lemmas h06_neutral = h04_neutral [where P = mem_ok, folded ok_06_eq] h06_new [THEN good_quiet(2)]

interpretation mod06: file_module "fops_06 abi core" ok_06 allowed env_ok for abi core
  by unfold_locales (auto simp: tables_06 allowed_append h06_allowed)

interpretation clean06: file_module "fops_06 abi core" ok_06 neutral env_full for abi core
  by unfold_locales (auto simp: tables_06 neutral_Nil neutral_append env_full_ok h06_neutral)

interpretation opens06: counted_files "fops_06 abi core" ok_06 allowed env_ok open_count "\<lambda>d w. d = 0"
  for abi core
  by unfold_locales
    (auto simp: tables_06 h04_keep h06_keep counters_keep h04_runs split: if_splits)

interpretation writers06: single_holder "fops_06 abi core" ok_06 allowed env_ok writers
  "\<lambda>d w. d = 2 \<and> w" for abi core
  by unfold_locales
    (auto simp: tables_06 h04_keep h06_keep counters_keep h04_runs split: if_splits)

section \<open>From load to unload\<close>

lemma load_06:
  assumes "my_init_06 misc d v2p fmt a = Ret (tr, mem, Inr 0)"
  shows "a \<noteq> NULL" and "ok_06 (hw06_start (Some mem))"
proof -
  show a: "a \<noteq> NULL" using assms by (auto simp: my_init_06_def Let_def)
  obtain mem1 where "fill_pages v2p fmt a 0 (replicate MEM_SIZE 0) = Ret mem1" "length mem1 = MEM_SIZE"
    using fill_pages_result [of 0 "replicate MEM_SIZE 0" v2p fmt a] by auto
  with assms a show "ok_06 (hw06_start (Some mem))"
    by (auto simp: my_init_06_def Let_def ok_06_def hw06_start_def buf_terminated_def)
qed

lemma load_06_exists:
  "a \<noteq> NULL \<Longrightarrow> \<exists>tr mem. my_init_06 misc d v2p fmt a = Ret (tr, mem, Inr 0)"
  using fill_pages_result [of 0 "replicate MEM_SIZE 0" v2p fmt a] by (auto simp: my_init_06_def Let_def)

lemma hw06_start_zero [simp]: "open_count (hw06_start mem) = 0" "writers (hw06_start mem) = 0"
  by (simp_all add: hw06_start_def)

lemma holders_06:
  "opens06.holders fs = {i. \<exists>w. fs i = Some (0, w)}"
  "writers06.holders fs = {i. fs i = Some (2, True)}"
  by (auto simp: opens06.holders_def writers06.holders_def)

definition keeps_buffer :: "(hw06, 'a) handler \<Rightarrow> bool" where
  "keeps_buffer h \<longleftrightarrow> (\<forall>m. buffer (globals (snd (run_state h m))) = buffer (globals m))"

lemma keeps_buffer_run_op:
  "(\<And>h. ho = Some h \<Longrightarrow> keeps_buffer h) \<Longrightarrow> buffer (globals (run_op ho m)) = buffer (globals m)"
  by (cases ho) (auto simp: run_op_def keeps_buffer_def)

lemma h06_keep_buffer:
  "keeps_buffer (h04_open w)" "keeps_buffer (h04_release w)"
  "keeps_buffer (h04_write e buf cnt off)" "keeps_buffer (h04_read e buf cnt off)"
  "keeps_buffer (h06_ioctl abi e cmd arg)" "keeps_buffer (h04_buf_read e buf cnt off)"
  "keeps_buffer (h04_write_open w)" "keeps_buffer (h04_write_release w)"
  "keeps_buffer (h06_mem_read e buf cnt off)" "keeps_buffer (h06_mem_write e buf cnt off)"
  "keeps_buffer (h04_myreader core e buf cnt off)"
  by (auto simp: keeps_buffer_def h04_runs h04_write_def h04_read_def h06_ioctl_def h04_buf_read_def
      h06_mem_read_def h06_mem_write_def h04_myreader_def
      split: prod.split exec.split option.split)

lemma op_of_06:
  "op_of (fops_06 abi core) fs i sel = Some h \<Longrightarrow>
   \<exists>d w t. fs i = Some (d, w) \<and> fops_06 abi core d = Some t \<and> sel t = Some h"
  by (auto simp: op_of_def Option.bind_eq_Some_conv)

lemma buffer_open:
  "buffer (globals (fst (vfs (fops_06 abi core) (Open i d w) (m, fs)))) = buffer (globals m)"
proof (cases "fops_06 abi core d")
  case (Some t)
  then have "keeps_buffer (h w)" if "fop_open t = Some h" for h
    using that by (auto simp: tables_06 h06_keep_buffer)
  with Some show ?thesis
    by (auto simp: keeps_buffer_def split: option.split sum.split prod.split)
      (metis fst_conv snd_conv)+
qed simp

lemma buffer_change:
  assumes "buffer (globals (fst (vfs (fops_06 abi core) fc (m, fs)))) \<noteq> buffer (globals m)"
  shows "\<exists>i e buf cnt off. fc = Write i e buf cnt off \<and> fs i = Some (2, True)"
proof (cases fc)
  case (Open i d w)
  with assms buffer_open show ?thesis by blast
next
  case (Close i)
  have "buffer (globals (run_op (map_option (\<lambda>h. h w) (op_of (fops_06 abi core) fs i fop_release)) m)) =
      buffer (globals m)" for w
    by (rule keeps_buffer_run_op) (auto simp: tables_06 h06_keep_buffer dest!: op_of_06)
  with Close assms show ?thesis by (auto split: option.splits)
next
  case (Read i e buf cnt off)
  have "buffer (globals (run_op (map_option (\<lambda>h. h e buf cnt off) (op_of (fops_06 abi core) fs i fop_read)) m)) =
      buffer (globals m)"
    by (rule keeps_buffer_run_op) (auto simp: tables_06 h06_keep_buffer dest!: op_of_06)
  with Read assms show ?thesis by simp
next
  case (Ioctl i e cmd arg)
  have "buffer (globals (run_op (map_option (\<lambda>h. h e cmd arg) (op_of (fops_06 abi core) fs i fop_ioctl)) m)) =
      buffer (globals m)"
    by (rule keeps_buffer_run_op) (auto simp: tables_06 h06_keep_buffer dest!: op_of_06)
  with Ioctl assms show ?thesis by simp
next
  case (Write i e buf cnt off)
  have "fs i = Some (2, True)"
  proof (rule ccontr)
    assume n: "fs i \<noteq> Some (2, True)"
    have "buffer (globals (run_op (if \<exists>d. fs i = Some (d, True)
        then map_option (\<lambda>h. h e buf cnt off) (op_of (fops_06 abi core) fs i fop_write) else None) m)) =
        buffer (globals m)"
      by (rule keeps_buffer_run_op)
        (use n in \<open>auto simp: tables_06 h06_keep_buffer dest!: op_of_06 split: if_splits\<close>)
    with Write assms show False by simp
  qed
  with Write show ?thesis by blast
qed

section \<open>Properties\<close>

text \<open>
  C5: From a load that succeeds on, whatever opens, reads, writes, ioctls and closes of the five
  devices and the debugfs file processes make, with whatever arguments and answers of the
  kernel (an allocation that fails excepted): no handler leaves its memory, sleeps under a
  spinlock, takes a lock it holds or leaves one taken, and the globals stay well formed: the
  length of the greeting is between 1 and 4, the buffer has 128 bytes of which the last is 0,
  the memory device has its twenty megabytes.
\<close>

theorem hw06_sound:
  assumes "my_init_06 misc d v2p fmt a = Ret (tr, mem, Inr 0)"
    and "\<forall>fc \<in> set cs. call_ok env_ok fc"
  shows "let (m, fs) = history (fops_06 abi core) cs (hw06_start (Some mem))
    in allowed (events m) \<and> 1 \<le> char_count (globals m) \<and> char_count (globals m) \<le> 4 \<and>
       length (buffer (globals m)) = 128 \<and> buffer (globals m) ! 127 = 0 \<and>
       (\<exists>b. mem_buffer (globals m) = Some b \<and> length b = MEM_SIZE)"
  using mod06.history_sound [OF load_06(2) [OF assms(1)] assms(2), of abi core]
  by (simp add: mod06.sound_def ok_06_def buf_terminated_def split_def Let_def)

theorem hw06_sound_witness:
  "\<exists>tr mem. my_init_06 (\<lambda>_. 0) \<lparr>debug_dir = 1, counter_file = 2, bindata_file = 3\<rparr> id (\<lambda>_ _. [])
      0x10000 = Ret (tr, mem, Inr 0) \<and>
    allowed (events (fst (history (fops_06 asm_generic [])
      [Open 3 0 True, Write 3 (env_all 65) 0x7000 2 0, Open 4 2 True,
       Write 4 (env_all 66) 0x7000 9 125, Close 4] (hw06_start (Some mem)))))"
proof -
  let ?d = "\<lparr>debug_dir = 1, counter_file = 2, bindata_file = 3\<rparr>"
  let ?cs = "[Open 3 0 True, Write 3 (env_all 65) 0x7000 2 0, Open 4 2 True,
    Write 4 (env_all 66) 0x7000 9 125, Close 4]"
  obtain tr mem where l: "my_init_06 (\<lambda>_. 0) ?d id (\<lambda>_ _. []) 0x10000 = Ret (tr, mem, Inr 0)"
    using load_06_exists [of "0x10000" "\<lambda>_. 0" ?d id "\<lambda>_ _. []"] by auto
  moreover have "\<forall>fc \<in> set ?cs. call_ok env_ok fc" by (simp add: env_ok_all vfs_args_def)
  ultimately show ?thesis
    using hw06_sound [OF l, of ?cs asm_generic "[]"] by (simp add: Let_def split_def)
qed

text \<open>
  C6: In the same histories \<open>count\<close> is the number of files open on the greeting device (modulo the
  width of the counter), \<open>writers\<close> that of files open for writing on the write device, which is
  at most one, and the next call changes the buffer only if it is a write through that file.
\<close>

theorem hw06_counts_files:
  assumes "my_init_06 misc d v2p fmt a = Ret (tr, mem, Inr 0)"
    and "\<forall>fc \<in> set cs. call_ok env_ok fc"
    and "history (fops_06 abi core) cs (hw06_start (Some mem)) = (m, fs)"
  shows "open_count (globals m) = of_nat (card {i. \<exists>w. fs i = Some (0, w)}) \<and>
    writers (globals m) = of_nat (card {i. fs i = Some (2, True)}) \<and>
    card {i. fs i = Some (2, True)} \<le> 1 \<and>
    (buffer (globals (fst (vfs (fops_06 abi core) fc (m, fs)))) = buffer (globals m) \<or>
     (\<exists>i e buf cnt off. fc = Write i e buf cnt off \<and> {j. fs j = Some (2, True)} = {i}))"
proof -
  note ok = load_06(2) [OF assms(1)]
  have o: "opens06.agree abi core (m, fs)"
    using opens06.history_agree [OF ok _ assms(2), of abi core] assms(3) by simp
  have w: "writers06.agree abi core (m, fs)"
    using writers06.history_agree [OF ok _ assms(2), of abi core] assms(3) by simp
  have one: "card {i. fs i = Some (2, True)} \<le> 1"
    using writers06.history_single [OF ok _ assms(2), of abi core] assms(3) by (simp add: holders_06)
  have fin: "finite {i. fs i = Some (2, True)}"
    using w by (simp add: writers06.agree_def holders_06)
  have "\<exists>i e buf cnt off. fc = Write i e buf cnt off \<and> {j. fs j = Some (2, True)} = {i}"
    if "buffer (globals (fst (vfs (fops_06 abi core) fc (m, fs)))) \<noteq> buffer (globals m)"
  proof -
    from buffer_change [OF that] obtain i e buf cnt off
      where i: "fc = Write i e buf cnt off" "fs i = Some (2, True)" by blast
    with one fin have "{j. fs j = Some (2, True)} = {i}" by (auto simp: card_le_Suc0_iff_eq)
    with i show ?thesis by blast
  qed
  with o w one show ?thesis by (auto simp: opens06.agree_def writers06.agree_def holders_06)
qed

theorem hw06_counts_files_witness:
  "\<exists>tr mem m fs. my_init_06 (\<lambda>_. 0) \<lparr>debug_dir = 1, counter_file = 2, bindata_file = 3\<rparr> id (\<lambda>_ _. [])
      0x10000 = Ret (tr, mem, Inr 0) \<and>
    history (fops_06 asm_generic []) [Open 3 0 False, Open 4 2 True, Open 5 2 True]
      (hw06_start (Some mem)) = (m, fs) \<and> fs 4 = Some (2, True) \<and> fs 5 = None \<and>
    writers (globals m) = of_nat (card {i. fs i = Some (2, True)}) \<and>
    card {i. fs i = Some (2, True)} \<le> 1"
proof -
  let ?d = "\<lparr>debug_dir = 1, counter_file = 2, bindata_file = 3\<rparr>"
  let ?cs = "[Open 3 0 False, Open 4 2 True, Open 5 2 True]"
  obtain tr mem where l: "my_init_06 (\<lambda>_. 0) ?d id (\<lambda>_ _. []) 0x10000 = Ret (tr, mem, Inr 0)"
    using load_06_exists [of "0x10000" "\<lambda>_. 0" ?d id "\<lambda>_ _. []"] by auto
  obtain m fs where h: "history (fops_06 asm_generic []) ?cs (hw06_start (Some mem)) = (m, fs)"
    by (cases "history (fops_06 asm_generic []) ?cs (hw06_start (Some mem))")
  then have "fs 4 = Some (2, True)" "fs 5 = None"
    by (auto simp: loaded_def hw06_start_def fops_06_def my_fops_06_def buf_write_fops_06_def
        no_ops_def h06_same h04_runs)
  moreover have "\<forall>fc \<in> set ?cs. call_ok env_ok fc" by simp
  ultimately show ?thesis using hw06_counts_files [OF l _ h] l h by blast
qed

text \<open>
  C7: Over the module's life from a load with all devices registered, through any calls whose
  copies from user memory succeed, to the unload, every resource is given back, and no call is
  one the kernel does not allow.
\<close>

theorem hw06_lifecycle:
  assumes "my_init_06 (\<lambda>_. 0) d v2p fmt a = Ret (tr, mem, Inr 0)"
    and "\<forall>fc \<in> set cs. call_ok env_full fc"
  shows "kres_run (tr @ calls (events (fst (history (fops_06 abi core) cs (hw06_start (Some mem))))) @
    my_exit_06 d a) {#} = Some {#}"
proof -
  let ?m = "fst (history (fops_06 abi core) cs (hw06_start (Some mem)))"
  let ?H = "misc_res 5 + (debugfs_res d + {#VMem a#})"
  note a = load_06(1) [OF assms(1)]
  have "tr = init_06_calls d a"
    using assms(1) by (auto simp: my_init_06_def init_06_calls_def exec_bind_Ret_iff Let_def split: if_splits)
  with init_06_run [of d a] a have "kres_run tr {#} = Some ?H" by (simp add: add.assoc)
  moreover have "neutral (events ?m)"
    using clean06.history_sound [OF load_06(2) [OF assms(1)] assms(2), of abi core]
    by (simp add: clean06.sound_def)
  moreover have "\<not> callbacks_live ?H"
    by (auto simp: callbacks_live_def misc_res_simps debugfs_res_def)
  ultimately show ?thesis
    using exit_06_run [OF a, of d] by (simp add: kres_run_append neutral_def)
qed

theorem hw06_lifecycle_witness:
  "\<exists>tr mem. my_init_06 (\<lambda>_. 0) \<lparr>debug_dir = 1, counter_file = 2, bindata_file = 3\<rparr> id (\<lambda>_ _. [])
      0x10000 = Ret (tr, mem, Inr 0) \<and>
    kres_run (tr @ calls (events (fst (history (fops_06 asm_generic [])
      [Open 3 0 True, Write 3 (env_all 65) 0x7000 2 0] (hw06_start (Some mem))))) @
      my_exit_06 \<lparr>debug_dir = 1, counter_file = 2, bindata_file = 3\<rparr> 0x10000) {#} = Some {#}"
proof -
  let ?d = "\<lparr>debug_dir = 1, counter_file = 2, bindata_file = 3\<rparr>"
  let ?cs = "[Open 3 0 True, Write 3 (env_all 65) 0x7000 2 0]"
  obtain tr mem where l: "my_init_06 (\<lambda>_. 0) ?d id (\<lambda>_ _. []) 0x10000 = Ret (tr, mem, Inr 0)"
    using load_06_exists [of "0x10000" "\<lambda>_. 0" ?d id "\<lambda>_ _. []"] by auto
  moreover have "\<forall>fc \<in> set ?cs. call_ok env_full fc" by (simp add: env_full_all vfs_args_def)
  ultimately show ?thesis using hw06_lifecycle [OF l] by blast
qed

text \<open>
  The handlers that homeworks 04 and 06 both have do the same, locks and sleeps included,
  except that the ioctl of 06 returns 0 where that of 04 runs off its end.
\<close>

theorem hw06_same_handlers:
  "h06_open = h04_open \<and> h06_release = h04_release \<and> h06_write = h04_write \<and> h06_read = h04_read \<and>
   h06_buf_read = h04_buf_read \<and> h06_write_open = h04_write_open \<and>
   h06_write_release = h04_write_release \<and> h06_buf_write = h04_buf_write \<and>
   h06_myreader = h04_myreader \<and>
   h06_ioctl abi e cmd arg = do {
     r \<leftarrow> h04_ioctl abi e cmd arg;
     State_Monad.return (Some (case r of None \<Rightarrow> Inr 0 | Some x \<Rightarrow> x)) }"
  by (simp only: h06_same h06_ioctl_same simp_thms)

end
