(* ===== verification/Hw_Upgrade.thy ===== *)
theory Hw_Upgrade
  imports Hw06
begin

text \<open>
  From homework 04 to homework 06: what a process can do with the devices of 04 it can do with the
  first three devices of 06, with the same effect.
\<close>

section \<open>What the module of homework 04 sees of that of 06\<close>

definition seen :: "hw06 machine \<Rightarrow> hw04 machine" where
  "seen m = \<lparr>globals = hw04.truncate (globals m), events = events m\<rparr>"

lemma seen_simps [simp]:
  "events (seen m) = events m" "char_count (globals (seen m)) = char_count (globals m)"
  "writers (globals (seen m)) = writers (globals m)" "buffer (globals (seen m)) = buffer (globals m)"
  "open_count (globals (seen m)) = open_count (globals m)"
  "seen (m\<lparr>events := evs\<rparr>) = (seen m)\<lparr>events := evs\<rparr>"
  by (simp_all add: seen_def hw04.truncate_def)

lemma seen_updates [simp]:
  "seen (m\<lparr>globals := g\<lparr>open_count := c\<rparr>\<rparr>) =
     (seen (m\<lparr>globals := g\<rparr>))\<lparr>globals := (globals (seen (m\<lparr>globals := g\<rparr>)))\<lparr>open_count := c\<rparr>\<rparr>"
  "seen (m\<lparr>globals := g\<lparr>char_count := c\<rparr>\<rparr>) =
     (seen (m\<lparr>globals := g\<rparr>))\<lparr>globals := (globals (seen (m\<lparr>globals := g\<rparr>)))\<lparr>char_count := c\<rparr>\<rparr>"
  "seen (m\<lparr>globals := g\<lparr>writers := c\<rparr>\<rparr>) =
     (seen (m\<lparr>globals := g\<rparr>))\<lparr>globals := (globals (seen (m\<lparr>globals := g\<rparr>)))\<lparr>writers := c\<rparr>\<rparr>"
  "seen (m\<lparr>globals := g\<lparr>buffer := b\<rparr>\<rparr>) =
     (seen (m\<lparr>globals := g\<rparr>))\<lparr>globals := (globals (seen (m\<lparr>globals := g\<rparr>)))\<lparr>buffer := b\<rparr>\<rparr>"
  by (simp_all add: seen_def hw04.truncate_def)

lemma seen_same [simp]: "seen (m\<lparr>globals := globals m\<rparr>) = seen m"
  by simp

definition agrees :: "(hw06, 'a) handler \<Rightarrow> (hw04, 'b) handler \<Rightarrow> ('a \<Rightarrow> 'b) \<Rightarrow> bool" where
  "agrees h6 h4 f \<longleftrightarrow> (\<forall>m. run_state h4 (seen m) =
     (f (fst (run_state h6 m)), seen (snd (run_state h6 m))))"

lemma copy_run:
  "run_state (h04_copy cpy off idx) (seen m) = ((), seen (snd (run_state (h04_copy cpy off idx) m)))"
proof (induction idx arbitrary: m)
  case Nil
  show ?case by simp
next
  case (Cons i idx)
  let ?b = "(buffer (globals m))[nat (int i + sint off) := cpy ! i]"
  show ?case
    using Cons [of "m\<lparr>globals := (globals m)\<lparr>buffer := ?b\<rparr>, events := events m @ [Sleep]\<rparr>"]
      Cons [of "m\<lparr>events := events m @ [Wild, Sleep]\<rparr>"]
    by (simp add: Let_def)
qed

lemma buf_write_agrees: "agrees (h04_buf_write e buf cnt off) (h04_buf_write e buf cnt off) id"
proof -
  let ?n = "write_count off cnt"
  obtain nc cpy where c: "e_cfu e buf (unat ?n) = (nc, cpy)" by (cases "e_cfu e buf (unat ?n)")
  have "run_state (h04_copy cpy off [0..<unat ?n]) ((seen m)\<lparr>events := evs\<rparr>) =
      ((), seen (snd (run_state (h04_copy cpy off [0..<unat ?n]) (m\<lparr>events := evs\<rparr>))))" for m evs
    using copy_run [of cpy off "[0..<unat ?n]" "m\<lparr>events := evs\<rparr>"] by simp
  then show ?thesis
    by (auto simp: agrees_def h04_buf_write_def Let_def c write_count_le split: prod.split)
qed

lemma h04_agrees:
  "agrees (h04_open w) (h04_open w) id" "agrees (h04_release w) (h04_release w) id"
  "agrees (h04_write_open w) (h04_write_open w) id"
  "agrees (h04_write_release w) (h04_write_release w) id"
  "agrees (h04_write e buf cnt off) (h04_write e buf cnt off) id"
  "agrees (h04_read e buf cnt off) (h04_read e buf cnt off) id"
  "agrees (h04_ioctl abi e cmd arg) (h04_ioctl abi e cmd arg) id"
  "agrees (h04_buf_read e buf cnt off) (h04_buf_read e buf cnt off) id"
  by (auto simp: agrees_def h04_runs h04_write_def h04_read_def h04_ioctl_def h04_buf_read_def
      split: prod.split exec.split)

lemma myreader_agrees: "agrees (h04_myreader core e buf cnt off) (h04_myreader core e buf cnt off) id"
  by (auto simp: agrees_def h04_myreader_def split: prod.split)

lemma ioctl_agrees:
  "agrees (h06_ioctl abi e cmd arg) (h04_ioctl abi e cmd arg)
     (\<lambda>r. if r = Some (Inr 0) then None else r)"
  by (auto simp: agrees_def h06_ioctl_def h04_ioctl_def)

text \<open>The globals and events a handler leaves behind, and the result of an open.\<close>

lemma agrees_snd: "agrees h6 h4 f \<Longrightarrow> snd (run_state h4 (seen m)) = seen (snd (run_state h6 m))"
  by (simp add: agrees_def)

lemma agrees_id: "agrees h6 h4 id \<Longrightarrow> run_state h6 m = (r, m1) \<Longrightarrow> run_state h4 (seen m) = (r, seen m1)"
  by (simp add: agrees_def)

lemmas after_seen = h04_agrees(1-6,8) [THEN agrees_snd] buf_write_agrees [THEN agrees_snd]
  ioctl_agrees [THEN agrees_snd]

section \<open>Histories\<close>

fun early :: "file_call \<Rightarrow> bool" where
  "early (Open i d w) = (d \<le> 2)"
| "early _ = True"

definition early_files :: "files \<Rightarrow> bool" where
  "early_files fs \<longleftrightarrow> (\<forall>i x. fs i = Some x \<longrightarrow> fst x \<le> 2)"

lemma upto_two: "(d :: nat) \<le> 2 \<Longrightarrow> d = 0 \<or> d = 1 \<or> d = 2"
  by linarith

lemmas both_tables = fops_04_def fops_06_def my_fops_04_def my_fops_06_def buf_read_fops_04_def
  buf_read_fops_06_def buf_write_fops_04_def buf_write_fops_06_def no_ops_def h06_same

lemma ops_seen:
  assumes "early_files fs"
  shows "run_op (map_option (\<lambda>h. h w) (op_of (fops_04 abi core) fs i fop_release)) (seen m) =
      seen (run_op (map_option (\<lambda>h. h w) (op_of (fops_06 abi core) fs i fop_release)) m)"
    and "run_op (map_option (\<lambda>h. h e buf cnt off) (op_of (fops_04 abi core) fs i fop_read)) (seen m) =
      seen (run_op (map_option (\<lambda>h. h e buf cnt off) (op_of (fops_06 abi core) fs i fop_read)) m)"
    and "run_op (map_option (\<lambda>h. h e buf cnt off) (op_of (fops_04 abi core) fs i fop_write)) (seen m) =
      seen (run_op (map_option (\<lambda>h. h e buf cnt off) (op_of (fops_06 abi core) fs i fop_write)) m)"
    and "run_op (map_option (\<lambda>h. h e cmd arg) (op_of (fops_04 abi core) fs i fop_ioctl)) (seen m) =
      seen (run_op (map_option (\<lambda>h. h e cmd arg) (op_of (fops_06 abi core) fs i fop_ioctl)) m)"
proof -
  have "fs i = None \<or> (\<exists>v. fs i = Some (0, v) \<or> fs i = Some (1, v) \<or> fs i = Some (2, v))"
  proof (cases "fs i")
    case (Some x)
    with assms have "fst x \<le> 2" by (cases x) (auto simp: early_files_def)
    then have "fst x = 0 \<or> fst x = 1 \<or> fst x = 2" by (rule upto_two)
    with Some show ?thesis by (cases x) auto
  qed simp
  then show "run_op (map_option (\<lambda>h. h w) (op_of (fops_04 abi core) fs i fop_release)) (seen m) =
      seen (run_op (map_option (\<lambda>h. h w) (op_of (fops_06 abi core) fs i fop_release)) m)"
    and "run_op (map_option (\<lambda>h. h e buf cnt off) (op_of (fops_04 abi core) fs i fop_read)) (seen m) =
      seen (run_op (map_option (\<lambda>h. h e buf cnt off) (op_of (fops_06 abi core) fs i fop_read)) m)"
    and "run_op (map_option (\<lambda>h. h e buf cnt off) (op_of (fops_04 abi core) fs i fop_write)) (seen m) =
      seen (run_op (map_option (\<lambda>h. h e buf cnt off) (op_of (fops_06 abi core) fs i fop_write)) m)"
    and "run_op (map_option (\<lambda>h. h e cmd arg) (op_of (fops_04 abi core) fs i fop_ioctl)) (seen m) =
      seen (run_op (map_option (\<lambda>h. h e cmd arg) (op_of (fops_06 abi core) fs i fop_ioctl)) m)"
    by (auto simp: op_of_def run_op_def both_tables after_seen)
qed

lemma open_seen:
  assumes "d \<le> 2"
  shows "vfs (fops_04 abi core) (Open i d w) (seen m, fs) =
    map_prod seen id (vfs (fops_06 abi core) (Open i d w) (m, fs))"
  using upto_two [OF assms] by (auto simp: both_tables h04_runs)

lemma vfs_seen:
  assumes "early fc" and "early_files fs"
  shows "vfs (fops_04 abi core) fc (seen m, fs) = map_prod seen id (vfs (fops_06 abi core) fc (m, fs))"
proof (cases fc)
  case (Open i d w)
  with open_seen assms show ?thesis by simp
next
  case (Close i)
  with ops_seen(1) [OF assms(2), of _ abi core i m] show ?thesis
    by (auto split: option.split)
next
  case (Read i e buf cnt off)
  with ops_seen(2) [OF assms(2), of e buf cnt off abi core i m] show ?thesis by simp
next
  case (Write i e buf cnt off)
  with ops_seen(3) [OF assms(2), of e buf cnt off abi core i m] show ?thesis
    by (simp add: run_op_def)
next
  case (Ioctl i e cmd arg)
  with ops_seen(4) [OF assms(2), of e cmd arg abi core i m] show ?thesis by simp
qed

lemma vfs_early:
  assumes "early fc" and "early_files fs"
  shows "early_files (snd (vfs (fops_06 abi core) fc (m, fs)))"
proof (cases fc)
  case (Open i d w)
  with assms show ?thesis
    by (auto simp: early_files_def split: option.split sum.split prod.split)
next
  case (Close i)
  with assms show ?thesis by (auto simp: early_files_def split: option.split)
qed (use assms in simp_all)

section \<open>Properties\<close>

text \<open>
  C9: Homework 06 is homework 04 to a process that opens only the three devices of 04: after any
  history of calls, whatever their arguments and the answers of the kernel, the two modules have
  the same files open, the same globals (but for the memory that 06 adds) and have done the
  same in the same order, locks and sleeps included.
\<close>

theorem hw06_runs_hw04:
  assumes "\<forall>fc \<in> set cs. early fc"
  shows "history (fops_04 abi core) cs hw04_start =
    map_prod seen id (history (fops_06 abi core) cs (hw06_start mem))"
proof -
  have "history (fops_04 abi core) cs hw04_start =
      map_prod seen id (history (fops_06 abi core) cs (hw06_start mem)) \<and>
    early_files (snd (history (fops_06 abi core) cs (hw06_start mem)))"
    using assms
  proof (induction cs rule: rev_induct)
    case Nil
    show ?case
      by (simp add: loaded_def seen_def hw04_start_def hw06_start_def hw04.truncate_def early_files_def)
  next
    case (snoc fc cs)
    obtain m fs where h: "history (fops_06 abi core) cs (hw06_start mem) = (m, fs)"
      by (cases "history (fops_06 abi core) cs (hw06_start mem)")
    with snoc have "history (fops_04 abi core) cs hw04_start = (seen m, fs)" "early_files fs" "early fc"
      by simp_all
    with h vfs_seen vfs_early show ?case by (simp add: id_def)
  qed
  then show ?thesis by blast
qed

theorem hw06_runs_hw04_witness:
  "history (fops_04 asm_generic []) [Open 3 2 True, Write 3 (env_all 65) 0x7000 3 0, Close 3] hw04_start =
   map_prod seen id (history (fops_06 asm_generic [])
     [Open 3 2 True, Write 3 (env_all 65) 0x7000 3 0, Close 3] (hw06_start None))"
  by (rule hw06_runs_hw04) simp

end
