(* ===== verification/Irq_Card.thy ===== *)
theory Irq_Card
  imports Pci_Bus Irq_Line
begin

text \<open>
  The interrupt driver of homework 09 for the COMBO card, \<open>09/pb173.c\<close>: a timer raises an
  interrupt on the card ten times a second, the handler acknowledges it. Its probe has no
  error labels: each failing step returns at once and keeps what the earlier steps acquired.
  Messages to the log are not modelled.
\<close>

section \<open>State\<close>

definition REG_RAISED :: nat where "REG_RAISED = 0x40"
definition REG_ENABLE :: nat where "REG_ENABLE = 0x44"
definition REG_RAISE :: nat where "REG_RAISE = 0x60"
definition REG_ACK :: nat where "REG_ACK = 0x64"

lemmas card_regs = REG_RAISED_def REG_ENABLE_def REG_RAISE_def REG_ACK_def

text \<open>The allocated help structure: \<open>help_at\<close> is its address, \<open>card_dev\<close> the device it belongs to.\<close>

record irq_card =
  virt :: addr
  timer :: addr
  help_at :: addr
  card_dev :: nat

text \<open>What the kernel answers to the calls of one probe, in their order.\<close>

record irq_env =
  c_card :: nat
  c_enable :: int
  c_region :: int
  c_virt :: addr
  c_timer :: addr
  c_help :: addr
  c_irq :: int

section \<open>The driver\<close>

text \<open>\<open>state\<close> is what the register 0x40 reads.\<close>

definition my_handler_09 :: "irq_card \<Rightarrow> u32 \<Rightarrow> irqreturn \<times> kcall list" where
  "my_handler_09 p state =
     (let rd = Readl (virt p) REG_RAISED
      in if state = 0 then (IRQ_NONE, [rd])
         else (IRQ_HANDLED, [rd, Writel 0x1000 (virt p) REG_ACK]))"

definition raise_intr_09 :: "irq_card \<Rightarrow> kcall list" where
  "raise_intr_09 p = [Writel 0x1000 (virt p) REG_RAISE, Mod_timer (timer p)]"

definition my_probe_09 :: "irq_env \<Rightarrow> kcall list \<times> (errno + irq_card)" where
  "my_probe_09 e =
     (let pdev = c_card e; v = c_virt e; my_timer = c_timer e; p = c_help e;
          tr1 = [Pci_enable_device pdev (c_enable e)]
      in if c_enable e \<noteq> 0 then (tr1, Inl EIO) else
      let tr2 = tr1 @ [Pci_request_regions pdev (c_region e)]
      in if c_region e \<noteq> 0 then (tr2, Inl EBUSY) else
      let tr3 = tr2 @ [Ioremap v]
      in if v = NULL then (tr3, Inl ENOMEM) else
      let tr4 = tr3 @ [Kmalloc my_timer]
      in if my_timer = NULL then (tr4, Inl ENOMEM) else
      let tr5 = tr4 @ [Kmalloc p]
      in if p = NULL then (tr5, Inl ENOMEM) else
      let tr6 = tr5 @ [Setup_timer my_timer, Set_drvdata pdev p, Request_irq p (c_irq e)]
      in if c_irq e \<noteq> 0 then (tr6, Inl (EKERNEL (c_irq e))) else
      (tr6 @ [Writel 0x1000 v REG_ENABLE, Mod_timer my_timer],
       Inr \<lparr>virt = v, timer = my_timer, help_at = p, card_dev = pdev\<rparr>))"

definition my_remove_09 :: "irq_card \<Rightarrow> kcall list" where
  "my_remove_09 p =
     [Del_timer_sync (timer p)] @ (if timer p \<noteq> NULL then [Kfree (timer p)] else []) @
     [Free_irq (help_at p), Iounmap (virt p), Pci_release_regions (card_dev p),
      Pci_disable_device (card_dev p), Kfree (help_at p)]"

definition my_init_09 :: "int \<Rightarrow> kcall list \<times> int" where
  "my_init_09 r = ([Pci_register_driver r], r)"

definition my_exit_09 :: "kcall list" where
  "my_exit_09 = [Pci_unregister_driver]"

section \<open>The contracts\<close>

datatype irq_card_event = Card_irq u32 | Card_timer

fun card_handle :: "irq_card \<Rightarrow> irq_card_event \<Rightarrow> kcall list" where
  "card_handle p (Card_irq state) = snd (my_handler_09 p state)"
| "card_handle p Card_timer = raise_intr_09 p"

definition card_res :: "irq_card \<Rightarrow> kres multiset" where
  "card_res p = {#DevEnabled (card_dev p), Regions (card_dev p), Mapped (virt p), Mem (timer p),
     Mem (help_at p), Irq (help_at p), Armed (timer p)#}"

definition card_live :: "irq_card \<Rightarrow> kres multiset \<Rightarrow> bool" where
  "card_live p H \<longleftrightarrow> timer p \<noteq> NULL \<and> help_at p \<noteq> NULL \<and> timer p \<noteq> help_at p \<and> H = card_res p"

text \<open>The kernel does not hand out a block that is still allocated.\<close>

definition card_env_ok :: "irq_env \<Rightarrow> bool" where
  "card_env_ok e \<longleftrightarrow> c_timer e \<noteq> c_help e"

text \<open>What a probe that fails keeps: everything up to the step that failed.\<close>

definition card_lost :: "irq_env \<Rightarrow> kres multiset" where
  "card_lost e =
     (let d = c_card e
      in if c_enable e \<noteq> 0 then {#}
         else if c_region e \<noteq> 0 then {#DevEnabled d#}
         else if c_virt e = NULL then {#DevEnabled d, Regions d#}
         else if c_timer e = NULL then {#DevEnabled d, Regions d, Mapped (c_virt e)#}
         else if c_help e = NULL
         then {#DevEnabled d, Regions d, Mapped (c_virt e), Mem (c_timer e)#}
         else if c_irq e \<noteq> 0
         then {#DevEnabled d, Regions d, Mapped (c_virt e), Mem (c_timer e), Mem (c_help e)#}
         else {#})"

lemma my_probe_09_lost:
  "my_probe_09 e = (tr, Inl err) \<Longrightarrow> kres_run tr {#} = Some (card_lost e)"
  by (auto simp: my_probe_09_def card_lost_def Let_def add_mset_commute split: if_splits)

lemma my_probe_09_bound:
  "card_env_ok e \<Longrightarrow> my_probe_09 e = (tr, Inr p) \<Longrightarrow>
   kres_run tr {#} = Some (card_res p) \<and> card_live p (card_res p) \<and> card_lost e = {#}"
  by (auto simp: my_probe_09_def card_env_ok_def card_res_def card_live_def card_lost_def Let_def
      add_mset_commute split: if_splits)

lemma card_lost_inert: "inert (card_lost e)"
  by (auto simp: card_lost_def inert_def Let_def)

lemma card_handle_keeps: "card_live p H \<Longrightarrow> kres_run (card_handle p ev) H = Some H"
  by (cases ev) (auto simp: card_live_def card_res_def my_handler_09_def raise_intr_09_def Let_def)

lemma my_remove_09_clean: "card_live p H \<Longrightarrow> kres_run (my_remove_09 p) H = Some {#}"
  by (auto simp: card_live_def card_res_def my_remove_09_def accounting)

abbreviation card_probe :: "unit \<Rightarrow> irq_env \<Rightarrow> unit \<times> kcall list \<times> (errno + irq_card)" where
  "card_probe \<equiv> (\<lambda>u e. (u, my_probe_09 e))"

abbreviation card_remove :: "unit \<Rightarrow> irq_card \<Rightarrow> unit \<times> kcall list" where
  "card_remove \<equiv> (\<lambda>u p. (u, my_remove_09 p))"

interpretation card: leaky_pci_driver card_probe card_remove "\<lambda>_. card_handle" "\<lambda>_. card_live"
  card_env_ok card_lost
  by unfold_locales
    (use my_probe_09_lost my_probe_09_bound card_lost_inert card_handle_keeps my_remove_09_clean
      in fastforce)+

interpretation card_irq: irq_handler my_handler_09 virt "\<lambda>state. state \<noteq> 0"
  "\<lambda>_. [(0x1000, REG_ACK)]"
  by unfold_locales (auto simp: my_handler_09_def Let_def)

section \<open>Several cards\<close>

text \<open>The id table and the structure the module registers with the PCI core.\<close>

definition my_table_09 :: "pci_device_id list" where
  "my_table_09 = [PCI_DEVICE 0x18ec 0xc058, Pci_end]"

definition my_driver_09 :: "(unit, irq_env, irq_card) pci_driver_struct" where
  "my_driver_09 = \<lparr>drv_name = ''my_driver'', id_table = my_table_09, drv_probe = card_probe,
     drv_remove = card_remove\<rparr>"

lemma card_probe_calls:
  "my_probe_09 e = (tr, r) \<Longrightarrow> c \<in> set tr \<Longrightarrow> \<not> conflicts c G"
  by (auto simp: my_probe_09_def Let_def split: if_splits)

lemma card_handle_calls: "c \<in> set (card_handle p ev) \<Longrightarrow> \<not> conflicts c G"
  by (cases ev) (auto simp: my_handler_09_def raise_intr_09_def Let_def split: if_splits)

lemma card_remove_apart:
  assumes "card_live p H" and "card_live q G" and "mem_apart H G" and "c \<in> set (my_remove_09 p)"
  shows "\<not> conflicts c G"
  using assms by (auto simp: my_remove_09_def card_live_def card_res_def mem_apart_def)

lemma card_lost_apart: "\<not> conflicts c (card_lost e)"
  by (cases c) (auto simp: card_lost_def Let_def)

interpretation card_bus: bus_driver my_driver_09 "\<lambda>_. card_handle" "\<lambda>_. card_live" card_env_ok card_lost
  c_card "\<lambda>_ _. True"
  unfolding my_driver_09_def
  by (intro bus_driver.intro bus_driver_axioms.intro, unfold pci_driver_struct.simps)
    (rule card.leaky_pci_driver_axioms,
     use card_lost_apart in \<open>auto dest: card_handle_calls card_remove_apart card_probe_calls\<close>)

section \<open>Properties\<close>

text \<open>
  A whole history of probes, interrupts, timer ticks and removals of one card: every bound
  device gives back what it held, and what stays behind at the end is exactly what the failing
  probes had acquired before the step that failed.
\<close>

theorem card_hotplug_losses:
  assumes "\<forall>(e, evs) \<in> set cs. card_env_ok e"
  shows "kres_run (snd (hotplug card_probe card_remove (\<lambda>_. card_handle) () cs)) {#} =
    Some (\<Sum>c \<leftarrow> cs. card_lost (fst c))"
  using assms by (rule card.hotplug_loses)

definition card_good_env :: irq_env where
  "card_good_env = \<lparr>c_card = 3, c_enable = 0, c_region = 0, c_virt = 0x8000, c_timer = 0x1000,
     c_help = 0x2000, c_irq = 0\<rparr>"

theorem card_hotplug_losses_witness:
  "kres_run (snd (hotplug card_probe card_remove (\<lambda>_. card_handle) ()
     [(card_good_env, [Card_timer, Card_irq 0x1000]), (card_good_env\<lparr>c_irq := -16\<rparr>, []),
      (card_good_env\<lparr>c_virt := NULL\<rparr>, [])])) {#} =
   Some {#DevEnabled 3, Regions 3, Mapped 0x8000, Mem 0x1000, Mem 0x2000,
     DevEnabled 3, Regions 3#}"
proof -
  let ?cs = "[(card_good_env, [Card_timer, Card_irq 0x1000]), (card_good_env\<lparr>c_irq := -16\<rparr>, []),
      (card_good_env\<lparr>c_virt := NULL\<rparr>, [])]"
  have "\<forall>(e, evs) \<in> set ?cs. card_env_ok e" by (simp add: card_env_ok_def card_good_env_def)
  from card_hotplug_losses [OF this] show ?thesis
    by (simp add: card_lost_def card_good_env_def Let_def)
qed

text \<open>
  C17: Any number of cards in the slots of a machine, plugged, interrupting, ticking and unplugged in
  any order and overlapping in any way: no call of the driver is one the kernel does not allow or
  one that takes something from another card, and a slot without a bound card holds exactly
  what the failing probes for it had acquired before the step that failed.
\<close>

theorem card_bus_losses:
  assumes "bus_ok matches my_driver_09 (\<lambda>_. card_handle) c_card card_env_ok n evs (empty_bus ())"
  shows "\<exists>s. bus_run my_driver_09 (\<lambda>_. card_handle) c_card n evs (empty_bus ()) = Some s \<and>
    (\<forall>i < n. at_slot s i = None \<longrightarrow> account s i = (\<Sum>e \<leftarrow> plugs c_card i evs. card_lost e))"
  using card_bus.bus_accounts [OF TrueI assms] by blast

text \<open>Two slots: one probe fails for want of an interrupt, the cards overlap, both are removed.\<close>

definition two_cards :: "(irq_env, irq_card_event) bus_event list" where
  "two_cards =
    (let e0 = card_good_env\<lparr>c_card := 0\<rparr>;
         e1 = \<lparr>c_card = 1, c_enable = 0, c_region = 0, c_virt = 0x9000, c_timer = 0x1100,
           c_help = 0x2100, c_irq = 0\<rparr>
     in [Plug e0, Plug (e1\<lparr>c_irq := -16\<rparr>), Callback 0 (Card_irq 0x1000),
         Plug (e1\<lparr>c_timer := 0x1200, c_help := 0x2200\<rparr>), Unplug 0, Callback 1 Card_timer, Unplug 1])"

theorem card_bus_losses_witness:
  "\<exists>s. bus_run my_driver_09 (\<lambda>_. card_handle) c_card 2 two_cards (empty_bus ()) = Some s \<and>
    (\<forall>i < 2. at_slot s i = None \<longrightarrow> account s i = (\<Sum>e \<leftarrow> plugs c_card i two_cards. card_lost e))"
proof (rule card_bus_losses)
  show "bus_ok (\<lambda>tbl _. PCI_DEVICE 0x18ec 0xc058 \<in> set tbl) my_driver_09 (\<lambda>_. card_handle) c_card
      card_env_ok 2 two_cards (empty_bus ())"
    by (simp add: two_cards_def Let_def my_driver_09_def my_table_09_def bus_eval card_good_env_def
      card_env_ok_def my_probe_09_def my_handler_09_def my_remove_09_def raise_intr_09_def accounting)
qed

text \<open>
  Several cards on one interrupt line: the line reports the interrupt as handled exactly
  if some card's register is not zero, and the handlers write the acknowledgement 0x1000 to
  the cards whose register is not zero and to no other.
\<close>

theorem card_shared_line:
  "(fst (dispatch my_handler_09 ds) = IRQ_HANDLED \<longleftrightarrow> (\<exists>x \<in> set ds. snd x \<noteq> 0)) \<and>
   reg_writes (snd (dispatch my_handler_09 ds)) =
     map (\<lambda>(p, state). (0x1000, virt p, REG_ACK)) (filter (\<lambda>x. snd x \<noteq> 0) ds)"
proof -
  have "concat (map (\<lambda>(p, state). map (\<lambda>(v, off). (v, virt p, off)) [(0x1000, REG_ACK)]) xs) =
      map (\<lambda>(p, state). (0x1000, virt p, REG_ACK)) xs" for xs :: "(irq_card \<times> u32) list"
    by (induction xs) auto
  then show ?thesis by (simp add: card_irq.line_handled card_irq.line_writes o_def)
qed

end
