(* ===== verification/Preempt.thy ===== *)
theory Preempt
  imports Phantom_System Irq_Card
begin

text \<open>
  Interrupts, timers and file operations that arrive in the middle of a probe or a removal. The
  calls of the driver run one after another; between any two of them, and as often as it likes,
  anything that is registered at that moment may call back. The locale shows that a driver whose
  callbacks leave the resources as they find them, wherever they come, never does what is not
  allowed; two of the drivers are such, the third is not (\<open>dma_remove_race\<close> in \<open>Dma_Card\<close>).
\<close>

section \<open>Callbacks between the calls of a driver\<close>

text \<open>A timer is no longer pending, and a tasklet no longer scheduled, when its function runs.\<close>

fun fired :: "kres \<Rightarrow> kres multiset \<Rightarrow> kres multiset" where
  "fired (Armed t) H = H - {#Armed t#}"
| "fired (Queued t) H = H - {#Queued t#}"
| "fired _ H = H"

text \<open>\<open>cb r ev\<close>: the calls made when the registered resource \<open>r\<close> calls back with \<open>ev\<close>.\<close>

inductive preempted ::
  "(kres \<Rightarrow> 'ev \<Rightarrow> kcall list option) \<Rightarrow> kcall list \<Rightarrow> kres multiset \<Rightarrow>
   kcall list \<Rightarrow> kres multiset \<Rightarrow> bool"
  for cb cs0 H0 where
  pre_start: "preempted cb cs0 H0 cs0 H0"
| pre_call: "preempted cb cs0 H0 (c # cs) H \<Longrightarrow> kres_step c H = Some H1 \<Longrightarrow> preempted cb cs0 H0 cs H1"
| pre_fire: "preempted cb cs0 H0 cs H \<Longrightarrow> r \<in># H \<Longrightarrow> cb r ev = Some h \<Longrightarrow>
    kres_run h (fired r H) = Some H1 \<Longrightarrow> preempted cb cs0 H0 cs H1"

inductive_cases preempted_done: "preempted cb [] H0 cs H"

text \<open>Neither the driver's next call nor a callback is one the kernel does not allow.\<close>

definition safe_now ::
  "(kres \<Rightarrow> 'ev \<Rightarrow> kcall list option) \<Rightarrow> kcall list \<Rightarrow> kres multiset \<Rightarrow> bool" where
  "safe_now cb cs H \<longleftrightarrow> (case cs of [] \<Rightarrow> True | c # _ \<Rightarrow> kres_step c H \<noteq> None) \<and>
     (\<forall>r ev h. r \<in># H \<longrightarrow> cb r ev = Some h \<longrightarrow> kres_run h (fired r H) \<noteq> None)"

definition stable :: "(kres \<Rightarrow> 'ev \<Rightarrow> kcall list option) \<Rightarrow> kres multiset \<Rightarrow> bool" where
  "stable cb H \<longleftrightarrow> (\<forall>r ev h. r \<in># H \<longrightarrow> cb r ev = Some h \<longrightarrow> kres_run h (fired r H) = Some H)"

fun stable_run :: "(kres \<Rightarrow> 'ev \<Rightarrow> kcall list option) \<Rightarrow> kcall list \<Rightarrow> kres multiset \<Rightarrow> bool" where
  "stable_run cb [] H = stable cb H"
| "stable_run cb (c # cs) H =
     (stable cb H \<and> (case kres_step c H of None \<Rightarrow> False | Some H1 \<Rightarrow> stable_run cb cs H1))"

lemma stable_run_stable: "stable_run cb cs H \<Longrightarrow> stable cb H"
  by (cases cs) auto

lemma stable_run_append:
  "stable_run cb xs H \<Longrightarrow> kres_run xs H = Some H1 \<Longrightarrow> stable_run cb ys H1 \<Longrightarrow> stable_run cb (xs @ ys) H"
  by (induction xs arbitrary: H) (auto split: option.splits)

lemma stable_run_safe: "stable_run cb cs H \<Longrightarrow> safe_now cb cs H"
  using stable_run_stable [of cb cs H]
  by (cases cs) (auto simp: safe_now_def stable_def split: option.splits)

text \<open>Callbacks that leave everything as it was leave the rest of the run as it was.\<close>

lemma preempted_stable:
  assumes "preempted cb cs0 H0 cs H" and "stable_run cb cs0 H0"
  shows "stable_run cb cs H \<and> kres_run cs H = kres_run cs0 H0"
  using assms
proof (induction rule: preempted.induct)
  case pre_start
  then show ?case by simp
next
  case (pre_call c cs H H1)
  then show ?case by simp
next
  case (pre_fire cs H r ev h H1)
  then have "stable cb H" using stable_run_stable by blast
  with pre_fire have "H1 = H" by (auto simp: stable_def)
  with pre_fire show ?case by simp
qed

lemma preempted_calls:
  "cs0 = xs @ cs \<Longrightarrow> kres_run xs H0 = Some H \<Longrightarrow> preempted cb cs0 H0 cs H"
proof (induction xs arbitrary: cs H rule: rev_induct)
  case Nil
  then show ?case by (simp add: pre_start)
next
  case (snoc x xs)
  from snoc.prems obtain H1 where H1: "kres_run xs H0 = Some H1" "kres_step x H1 = Some H"
    by (auto simp: kres_run_append split: option.splits)
  with snoc show ?case by (auto intro: pre_call)
qed

section \<open>The contract\<close>

definition life ::
  "('st \<Rightarrow> 'env \<Rightarrow> 'st \<times> kcall list \<times> (errno + 'd)) \<Rightarrow> ('st \<Rightarrow> 'd \<Rightarrow> 'st \<times> kcall list) \<Rightarrow>
   'st \<Rightarrow> 'env \<Rightarrow> kcall list" where
  "life probe remove st e =
     (case probe st e of (st1, tr, Inl _) \<Rightarrow> tr | (st1, tr, Inr d) \<Rightarrow> tr @ snd (remove st1 d))"

locale preemptible =
  fixes probe :: "'st \<Rightarrow> 'env \<Rightarrow> 'st \<times> kcall list \<times> (errno + 'd)"
    and remove :: "'st \<Rightarrow> 'd \<Rightarrow> 'st \<times> kcall list"
    and cb :: "'env \<Rightarrow> kres \<Rightarrow> 'ev \<Rightarrow> kcall list option"
    and ok :: "'env \<Rightarrow> bool"
  assumes probe_stable: "ok e \<Longrightarrow> probe st e = (st1, tr, r) \<Longrightarrow> stable_run (cb e) tr {#}"
    and remove_stable: "ok e \<Longrightarrow> probe st e = (st1, tr, Inr d) \<Longrightarrow> kres_run tr {#} = Some H \<Longrightarrow>
      stable_run (cb e) (snd (remove st1 d)) H"
begin

lemma stable_life: "ok e \<Longrightarrow> stable_run (cb e) (life probe remove st e) {#}"
proof -
  assume e: "ok e"
  obtain st1 tr r where p: "probe st e = (st1, tr, r)" by (cases "probe st e") auto
  note s = probe_stable [OF e p]
  show ?thesis
  proof (cases r)
    case (Inl er)
    with p s show ?thesis by (simp add: life_def)
  next
    case (Inr d)
    have "\<exists>H. kres_run xs H0 = Some H" if "stable_run (cb e) xs H0" for xs H0
      using that by (induction xs arbitrary: H0) (auto split: option.splits)
    with s obtain H where H: "kres_run tr {#} = Some H" by blast
    with remove_stable [OF e _ H] p Inr stable_run_append [OF s H] show ?thesis
      by (simp add: life_def)
  qed
qed

lemma life_preempted:
  assumes "ok e" and "preempted (cb e) (life probe remove st e) {#} cs H"
  shows "safe_now (cb e) cs H" and "cs = [] \<Longrightarrow> kres_run (life probe remove st e) {#} = Some H"
  using preempted_stable [OF assms(2) stable_life [OF assms(1)]] stable_run_safe by auto

end

section \<open>The interrupt driver\<close>

text \<open>
  The help structure is complete before the interrupt is requested and the timer started: the
  callbacks find in it what the probe got from the kernel.
\<close>

definition card_of :: "irq_env \<Rightarrow> irq_card" where
  "card_of e = \<lparr>virt = c_virt e, timer = c_timer e, help_at = c_help e, card_dev = c_card e\<rparr>"

fun card_cb :: "irq_env \<Rightarrow> kres \<Rightarrow> irq_card_event \<Rightarrow> kcall list option" where
  "card_cb e (Irq p) (Card_irq state) =
     (if p = c_help e then Some (card_handle (card_of e) (Card_irq state)) else None)"
| "card_cb e (Armed t) Card_timer =
     (if t = c_timer e then Some (card_handle (card_of e) Card_timer) else None)"
| "card_cb e _ _ = None"

lemma card_cb_Some:
  "card_cb e r ev = Some h \<longleftrightarrow>
     (\<exists>state. r = Irq (c_help e) \<and> ev = Card_irq state \<and> h = snd (my_handler_09 (card_of e) state)) \<or>
     (r = Armed (c_timer e) \<and> ev = Card_timer \<and> h = raise_intr_09 (card_of e))"
  by (cases "(e, r, ev)" rule: card_cb.cases) auto

text \<open>The callbacks need the mapping, and the timer's function arms the timer again.\<close>

lemma card_stable:
  assumes "Irq (c_help e) \<in># H \<or> Armed (c_timer e) \<in># H \<longrightarrow> Mapped (c_virt e) \<in># H"
    and "Multiset.count H (Armed (c_timer e)) \<le> 1"
  shows "stable (card_cb e) H"
proof -
  have "add_mset x (H - {#x#}) = H" if "x \<in># H" for x :: kres using that by simp
  moreover have "Armed (c_timer e) \<notin># H - {#Armed (c_timer e)#}"
    using assms(2) by (simp add: count_eq_zero_iff [symmetric] del: count_eq_zero_iff)
  moreover have "Mapped v \<in># H - {#Armed t#} \<longleftrightarrow> Mapped v \<in># H" for v t
    by (simp add: in_diff_count count_eq_zero_iff)
  ultimately show ?thesis
    using assms(1)
    by (auto simp: stable_def card_cb_Some my_handler_09_def raise_intr_09_def card_of_def Let_def)
qed

interpretation card_pre: preemptible card_probe card_remove card_cb card_env_ok
proof
  show "stable_run (card_cb e) tr {#}" if "card_env_ok e" "card_probe st e = (st1, tr, r)"
    for e st st1 tr and r :: "errno + irq_card"
    using that by (auto simp: my_probe_09_def Let_def card_env_ok_def card_stable split: if_splits)
  show "stable_run (card_cb e) (snd (card_remove st1 d)) H"
    if "card_env_ok e" "card_probe st e = (st1, tr, Inr d)" "kres_run tr {#} = Some H" for e st st1 tr d H
  proof -
    from that have "H = card_res d" "card_live d H" using my_probe_09_bound by fastforce+
    moreover from that have "d = card_of e" by (auto simp: my_probe_09_def Let_def card_of_def split: if_splits)
    ultimately show ?thesis
      by (auto simp: my_remove_09_def card_res_def card_live_def card_of_def accounting card_stable)
  qed
qed

lemma card_life_lost:
  assumes "card_env_ok e"
  shows "kres_run (life card_probe card_remove () e) {#} = Some (card_lost e)"
proof (cases "snd (my_probe_09 e)")
  case (Inl er)
  then show ?thesis using my_probe_09_lost by (cases "my_probe_09 e") (auto simp: life_def)
next
  case (Inr p)
  then obtain tr where tr: "my_probe_09 e = (tr, Inr p)" by (cases "my_probe_09 e") auto
  from my_probe_09_bound [OF assms tr] my_remove_09_clean tr show ?thesis
    by (simp add: life_def kres_run_append)
qed

text \<open>
  C18: Interrupts and timer ticks may arrive between any two calls of the probe and the removal
  of the COMBO card of homework 09, as soon as their handler is registered and as often as they
  like: at every moment the driver's next call and every callback that can happen are ones the
  kernel allows (no access to memory that is not mapped, nothing given back twice), and in the
  end only what \<open>card_lost\<close> names is still held, whatever arrived.
\<close>

theorem card_preempted:
  assumes "card_env_ok e"
    and "preempted (card_cb e) (life card_probe card_remove () e) {#} cs H"
  shows "safe_now (card_cb e) cs H \<and> (cs = [] \<longrightarrow> H = card_lost e)"
proof -
  note p = card_pre.life_preempted [OF assms]
  moreover have "H = card_lost e" if "cs = []"
    using p(2) [OF that] card_life_lost [OF assms(1)] by simp
  ultimately show ?thesis by simp
qed

text \<open>The timer ticks when it has just been started, an interrupt arrives after it was stopped.\<close>

theorem card_preempted_witness:
  "safe_now (card_cb card_good_env) [Kfree 0x1000, Free_irq 0x2000, Iounmap 0x8000,
      Pci_release_regions 3, Pci_disable_device 3, Kfree 0x2000]
    {#DevEnabled 3, Regions 3, Mapped 0x8000, Mem 0x1000, Mem 0x2000, Irq 0x2000#}"
proof -
  let ?cb = "card_cb card_good_env" and ?cs = "life card_probe card_remove () card_good_env"
  have ok: "card_env_ok card_good_env" by (simp add: card_env_ok_def card_good_env_def)
  let ?H = "{#DevEnabled 3, Regions 3, Mapped 0x8000, Mem 0x1000, Mem 0x2000, Irq 0x2000#}"
  let ?rest = "[Kfree 0x1000, Free_irq 0x2000, Iounmap 0x8000, Pci_release_regions 3,
     Pci_disable_device 3, Kfree 0x2000]"
  have cs: "?cs = ([Pci_enable_device 3 0, Pci_request_regions 3 0, Ioremap 0x8000, Kmalloc 0x1000,
      Kmalloc 0x2000, Setup_timer 0x1000, Set_drvdata 3 0x2000, Request_irq 0x2000 0,
      Writel 0x1000 0x8000 REG_ENABLE, Mod_timer 0x1000]) @ (Del_timer_sync 0x1000 # ?rest)"
    by (simp add: life_def my_probe_09_def my_remove_09_def card_good_env_def Let_def)
  have "preempted ?cb ?cs {#} (Del_timer_sync 0x1000 # ?rest) (add_mset (Armed 0x1000) ?H)"
    by (rule preempted_calls [OF cs]) (simp add: accounting)
  then have "preempted ?cb ?cs {#} (Del_timer_sync 0x1000 # ?rest) (add_mset (Armed 0x1000) ?H)"
    by (rule pre_fire [where r = "Armed 0x1000" and ev = Card_timer
          and h = "[Writel 0x1000 0x8000 REG_RAISE, Mod_timer 0x1000]"])
      (simp_all add: card_good_env_def card_of_def raise_intr_09_def accounting)
  then have "preempted ?cb ?cs {#} ?rest ?H"
    by (rule pre_call) simp
  then have "preempted ?cb ?cs {#} ?rest ?H"
    by (rule pre_fire [where r = "Irq 0x2000" and ev = "Card_irq 0x1000"
          and h = "[Readl 0x8000 REG_RAISED, Writel 0x1000 0x8000 REG_ACK]"])
      (simp_all add: card_good_env_def card_of_def my_handler_09_def Let_def accounting)
  from card_preempted [OF ok this] show ?thesis by simp
qed

section \<open>The phantom driver\<close>

text \<open>
  Once the character device is there a process can open it and write to it; the interrupt
  handler and the write find in the device structure what the probe put there.
\<close>

definition phantom_of :: "phantom_env \<Rightarrow> phantom_device" where
  "phantom_of e = \<lparr>opened = 0, caddr = e_caddr e, iaddr = e_iaddr e, status = 0, cdev_minor = 0,
     self = e_pht e, pdev = e_pdev e\<rparr>"

fun phantom_cb :: "phantom_env \<Rightarrow> kres \<Rightarrow> phantom_event \<Rightarrow> kcall list option" where
  "phantom_cb e (Irq p) (Phantom_irq h) =
     (if p = e_pht e then Some (phantom_handle (phantom_of e) (Phantom_irq h)) else None)"
| "phantom_cb e (Chrdev m) (Phantom_write um buf cnt) =
     Some (phantom_handle (phantom_of e) (Phantom_write um buf cnt))"
| "phantom_cb e _ _ = None"

lemma phantom_cb_Some:
  "phantom_cb e r ev = Some h \<longleftrightarrow>
     (r = Irq (e_pht e) \<and> (\<exists>x. ev = Phantom_irq x) \<or> (\<exists>m um buf cnt. r = Chrdev m \<and> ev = Phantom_write um buf cnt)) \<and>
     h = phantom_handle (phantom_of e) ev"
  by (cases "(e, r, ev)" rule: phantom_cb.cases) auto

lemma phantom_handle_mapped:
  "Mapped (e_iaddr e) \<in># H \<Longrightarrow> kres_run (phantom_handle (phantom_of e) ev) H = Some H"
  using phantom_write_keeps [of "phantom_of e" H] phantom_isr_keeps [of "phantom_of e" H]
  by (cases ev) (auto simp: phantom_of_def split: exec.split)

lemma phantom_stable:
  "Irq (e_pht e) \<in># H \<or> (\<exists>m. Chrdev m \<in># H) \<longrightarrow> Mapped (e_iaddr e) \<in># H \<Longrightarrow> stable (phantom_cb e) H"
  by (auto simp: stable_def phantom_cb_Some phantom_handle_mapped simp del: phantom_handle.simps)

lemma phantom_probe_result:
  "phantom_probe devs e = (devs1, tr, Inr d) \<Longrightarrow>
   caddr d = e_caddr e \<and> iaddr d = e_iaddr e \<and> self d = e_pht e \<and> pdev d = e_pdev e"
  by (auto simp: phantom_probe_def goto_def Let_def split: if_splits)

interpretation phantom_pre: preemptible phantom_probe phantom_remove phantom_cb "\<lambda>_. True"
proof
  show "stable_run (phantom_cb e) tr {#}" if "phantom_probe st e = (st1, tr, r)" for e st st1 tr r
    using that
    by (auto simp: phantom_probe_def goto_def err_labels Let_def accounting phantom_stable split: if_splits)
  show "stable_run (phantom_cb e) (snd (phantom_remove st1 d)) H"
    if "phantom_probe st e = (st1, tr, Inr d)" "kres_run tr {#} = Some H" for e st st1 tr d H
  proof -
    from that have l: "phantom_live d H" using phantom_probe_live by fastforce
    note d = phantom_probe_result [OF that(1)]
    from l have "H = phantom_res d \<or> H = add_mset (Node (cdev_minor d)) (phantom_res d)" "self d \<noteq> NULL"
      by (auto simp: phantom_live_def)
    then show ?thesis
      using d by (auto simp: phantom_remove_def phantom_res_def Let_def accounting phantom_stable)
  qed
qed

lemma phantom_life_clean: "kres_run (life phantom_probe phantom_remove devs e) {#} = Some {#}"
proof -
  obtain devs1 tr r where p: "phantom_probe devs e = (devs1, tr, r)"
    by (cases "phantom_probe devs e") auto
  show ?thesis
  proof (cases r)
    case (Inl er)
    with p phantom_probe_fail_clean [of devs e devs1 tr er] show ?thesis by (simp add: life_def)
  next
    case (Inr d)
    with p phantom_probe_live [of devs e devs1 tr d] phantom_remove_clean [of d _ devs1]
    show ?thesis by (auto simp: life_def kres_run_append)
  qed
qed



end
