(* ===== verification/Pci_List.thy ===== *)
theory Pci_List
  imports Pci_Bus
begin

text \<open>
  The PCI driver of homework 08, \<open>08/pb173.c\<close>: on load it takes a snapshot of the PCI devices
  of the system, on unload it compares the snapshot with the devices then present, and for the
  COMBO card it maps the first region and prints what the bridge says about itself. The
  devices the system has are an argument of the model, in the order \<open>pci_get_device\<close> goes
  through them.
\<close>

section \<open>Data\<close>

text \<open>A device with the number \<open>pci_id\<close> that stands for its address.\<close>

record pci_dev =
  pci_id :: nat
  pci_domain :: int
  pci_bus :: byte
  devfn :: u32
  vendor :: u16
  device :: u16

text \<open>The kernel's macros for the slot and the function in \<open>devfn\<close>.\<close>

record pci_abi =
  PCI_SLOT :: "u32 \<Rightarrow> u32"
  PCI_FUNC :: "u32 \<Rightarrow> u32"

text \<open>An entry of \<open>pdev_list\<close>: its address and the device it points to.\<close>

type_synonym pdev_struct = "addr \<times> pci_dev"

definition same_place :: "pci_abi \<Rightarrow> pci_dev \<Rightarrow> pci_dev \<Rightarrow> bool" where
  "same_place abi d e \<longleftrightarrow> pci_domain d = pci_domain e \<and> pci_bus d = pci_bus e \<and>
     PCI_SLOT abi (devfn d) = PCI_SLOT abi (devfn e) \<and>
     PCI_FUNC abi (devfn d) = PCI_FUNC abi (devfn e)"

definition dev_ids :: "pci_dev \<Rightarrow> u16 \<times> u16" where
  "dev_ids d = (vendor d, device d)"

section \<open>Load\<close>

text \<open>
  The loop over the devices, \<open>i\<close> of which are listed already: \<open>kmalloc i\<close> is what the
  allocation for the next returns. \<open>pci_get_device\<close> takes a reference to the device it returns
  and drops the one to the device it is given.
\<close>

fun init_loop ::
  "(nat \<Rightarrow> addr) \<Rightarrow> nat \<Rightarrow> pci_dev list \<Rightarrow> pdev_struct list \<Rightarrow> pdev_struct list \<times> kcall list \<times> bool" where
  "init_loop kmalloc i [] pdev_list = (pdev_list, [], True)"
| "init_loop kmalloc i (pdev # ds) pdev_list =
     (let p = kmalloc i; tr = [Pci_dev_get (pci_id pdev), Kmalloc p]
      in if p = NULL then (pdev_list, tr, False)
         else let (l, tr1, done) = init_loop kmalloc (i + 1) ds ((p, pdev) # pdev_list)
              in (l, tr @ [Pci_dev_get (pci_id pdev), Pci_dev_put (pci_id pdev)] @ tr1, done))"

definition my_init_08 ::
  "(nat \<Rightarrow> addr) \<Rightarrow> int \<Rightarrow> pci_dev list \<Rightarrow> pdev_struct list \<times> kcall list \<times> (errno + int)" where
  "my_init_08 kmalloc r devs =
     (let (l, tr, done) = init_loop kmalloc 0 devs []
      in if done then (l, tr @ [Pci_register_driver r], Inr r) else (l, tr, Inl EIO))"

section \<open>Unload\<close>

definition find_listed :: "pci_abi \<Rightarrow> pdev_struct list \<Rightarrow> pci_dev \<Rightarrow> bool" where
  "find_listed abi pdev_list pdev =
     fold (\<lambda>p found. if same_place abi pdev (snd p) then True else found) pdev_list False"

text \<open>The identifiers printed by the first loop, over the devices present.\<close>

fun plugged_loop :: "pci_abi \<Rightarrow> pdev_struct list \<Rightarrow> pci_dev list \<Rightarrow> (u16 \<times> u16) list" where
  "plugged_loop abi pdev_list [] = []"
| "plugged_loop abi pdev_list (pdev # ds) =
     (if \<not> find_listed abi pdev_list pdev then [dev_ids pdev] else []) @
     plugged_loop abi pdev_list ds"

text \<open>
  The second loop is over the list; its inner loop is over the devices present and tests
  \<open>found\<close> for each of them.
\<close>

fun removed_inner :: "pci_abi \<Rightarrow> pdev_struct \<Rightarrow> bool \<Rightarrow> pci_dev list \<Rightarrow> (u16 \<times> u16) list" where
  "removed_inner abi p found [] = []"
| "removed_inner abi p found (pdev # ds) =
     (let found1 = (if same_place abi pdev (snd p) then True else found)
      in (if \<not> found1 then [dev_ids pdev] else []) @ removed_inner abi p found1 ds)"

fun removed_loop :: "pci_abi \<Rightarrow> pci_dev list \<Rightarrow> pdev_struct list \<Rightarrow> (u16 \<times> u16) list" where
  "removed_loop abi devs [] = []"
| "removed_loop abi devs (p # ps) = removed_inner abi p False devs @ removed_loop abi devs ps"

definition my_exit_08 ::
  "pci_abi \<Rightarrow> pdev_struct list \<Rightarrow> pci_dev list \<Rightarrow> (u16 \<times> u16) list \<times> kcall list" where
  "my_exit_08 abi pdev_list devs =
     (plugged_loop abi pdev_list devs @ removed_loop abi devs pdev_list,
      concat (map (\<lambda>(p, pdev). [Pci_dev_put (pci_id pdev), Kfree p]) pdev_list) @
      [Pci_unregister_driver])"

section \<open>Probe and remove\<close>

text \<open>A plain \<open>char\<close> is signed: the integer an access to a byte of a word gives.\<close>

definition char_at :: "u32 \<Rightarrow> nat \<Rightarrow> u32" where
  "char_at w i = scast (ucast (drop_bit (8 * i) w) :: byte)"

record bridge_info =
  major :: u32
  minor :: u32
  year :: u32
  month :: u32
  day :: u32
  hour :: u32
  minute :: u32

definition decode_info :: "u32 \<Rightarrow> u32 \<Rightarrow> bridge_info" where
  "decode_info info_low info_up =
     \<lparr>major = char_at info_low 2, minor = char_at info_low 3,
      year = drop_bit 4 (char_at info_up 0 AND 0xf0),
      month = char_at info_up 0 AND 0xf, day = char_at info_up 1,
      hour = char_at info_up 2, minute = char_at info_up 3\<rparr>"

record list_env =
  l_dev :: nat
  l_enable :: int
  l_region :: int
  l_virt :: addr
  l_low :: u32
  l_up :: u32

text \<open>A bound device: its driver data is the mapping. The information read is what is printed.\<close>

definition my_probe_08 ::
  "list_env \<Rightarrow> kcall list \<times> (errno + nat \<times> addr \<times> bridge_info)" where
  "my_probe_08 e =
     (let pdev = l_dev e; virt = l_virt e; tr1 = [Pci_enable_device pdev (l_enable e)]
      in if l_enable e \<noteq> 0 then (tr1, Inl EIO) else
      let tr2 = tr1 @ [Pci_request_regions pdev (l_region e)]
      in if l_region e \<noteq> 0 then (tr2, Inl EBUSY) else
      let tr3 = tr2 @ [Ioremap virt]
      in if virt = NULL then (tr3, Inl ENOMEM) else
      (tr3 @ [Set_drvdata pdev virt, Readl virt 0, Readl virt 4],
       Inr (pdev, virt, decode_info (l_low e) (l_up e))))"

definition my_remove_08 :: "nat \<times> addr \<times> bridge_info \<Rightarrow> kcall list" where
  "my_remove_08 d =
     (let (pdev, virt, _) = d in [Iounmap virt, Pci_release_regions pdev, Pci_disable_device pdev])"

section \<open>The contract\<close>

definition list_lost :: "list_env \<Rightarrow> kres multiset" where
  "list_lost e =
     (let d = l_dev e
      in if l_enable e \<noteq> 0 then {#}
         else if l_region e \<noteq> 0 then {#DevEnabled d#}
         else if l_virt e = NULL then {#DevEnabled d, Regions d#}
         else {#})"

definition list_live :: "nat \<times> addr \<times> bridge_info \<Rightarrow> kres multiset \<Rightarrow> bool" where
  "list_live d H \<longleftrightarrow> H = {#DevEnabled (fst d), Regions (fst d), Mapped (fst (snd d))#}"

interpretation pci_list: leaky_pci_driver "\<lambda>u e. (u, my_probe_08 e)" "\<lambda>u d. (u, my_remove_08 d)"
  "\<lambda>_ _ (ev :: unit). []" "\<lambda>_ :: unit. list_live" "\<lambda>_. True" list_lost
  by unfold_locales
    (auto simp: my_probe_08_def my_remove_08_def list_lost_def list_live_def inert_def Let_def
      accounting split: if_splits)

definition my_table_08 :: "pci_device_id list" where
  "my_table_08 = [PCI_DEVICE 0x18ec 0xc058, Pci_end]"

definition my_driver_08 :: "(unit, list_env, nat \<times> addr \<times> bridge_info) pci_driver_struct" where
  "my_driver_08 = \<lparr>drv_name = ''my_driver'', id_table = my_table_08,
     drv_probe = (\<lambda>u e. (u, my_probe_08 e)), drv_remove = (\<lambda>u d. (u, my_remove_08 d))\<rparr>"

lemma list_calls:
  "my_probe_08 e = (tr, r) \<Longrightarrow> c \<in> set tr \<Longrightarrow> \<not> conflicts c G"
  "c \<in> set (my_remove_08 d) \<Longrightarrow> \<not> conflicts c G"
  "\<not> conflicts c (list_lost e)"
  by (auto simp: my_probe_08_def my_remove_08_def list_lost_def Let_def split: if_splits prod.splits)
    (cases c, auto)+

interpretation pci_list_bus: bus_driver my_driver_08 "\<lambda>_ _ (ev :: unit). []" "\<lambda>_ :: unit. list_live"
  "\<lambda>_. True" list_lost l_dev "\<lambda>_ _. True"
  unfolding my_driver_08_def
  by (intro bus_driver.intro bus_driver_axioms.intro, unfold pci_driver_struct.simps)
    (rule pci_list.leaky_pci_driver_axioms, auto simp: list_calls(3) dest: list_calls(1,2))

section \<open>Lemmas\<close>

lemma find_listed_iff: "find_listed abi l d \<longleftrightarrow> (\<exists>p \<in> set l. same_place abi d (snd p))"
proof -
  have "fold (\<lambda>p found. if same_place abi d (snd p) then True else found) l b \<longleftrightarrow>
      b \<or> (\<exists>p \<in> set l. same_place abi d (snd p))" for b
    by (induction l arbitrary: b) auto
  then show ?thesis by (simp add: find_listed_def)
qed

lemma plugged_loop_filter:
  "plugged_loop abi l ds = map dev_ids (filter (\<lambda>d. \<not> (\<exists>p \<in> set l. same_place abi d (snd p))) ds)"
  by (induction ds) (auto simp: find_listed_iff)

lemma removed_inner_found: "removed_inner abi p True ds = []"
  by (induction ds) simp_all

lemma removed_inner_takeWhile:
  "removed_inner abi p False ds = map dev_ids (takeWhile (\<lambda>d. \<not> same_place abi d (snd p)) ds)"
  by (induction ds) (simp_all add: removed_inner_found)

lemma removed_loop_takeWhile:
  "removed_loop abi devs l =
   concat (map (\<lambda>p. map dev_ids (takeWhile (\<lambda>d. \<not> same_place abi d (snd p)) devs)) l)"
  by (induction l) (simp_all add: removed_inner_takeWhile)

text \<open>What the list holds: the entries and a reference to each device.\<close>

definition list_res :: "pdev_struct list \<Rightarrow> kres multiset" where
  "list_res l = (\<Sum>e \<leftarrow> l. {#Mem (fst e), DevRef (pci_id (snd e))#})"

lemma list_res_simps [simp]:
  "list_res [] = {#}"
  "list_res ((p, d) # l) = add_mset (Mem p) (add_mset (DevRef (pci_id d)) (list_res l))"
  by (simp_all add: list_res_def)

lemma list_res_quiet [simp]:
  "Irq q \<notin># list_res l" "Armed q \<notin># list_res l" "Queued q \<notin># list_res l"
  by (induction l) auto

lemma init_loop_done:
  assumes "init_loop kmalloc i ds acc = (l, tr, True)"
  shows "map snd l = rev ds @ map snd acc \<and> kres_run tr (list_res acc) = Some (list_res l) \<and>
    (NULL \<notin> fst ` set acc \<longrightarrow> NULL \<notin> fst ` set l)"
  using assms
proof (induction kmalloc i ds acc arbitrary: tr rule: init_loop.induct)
  case (1 kmalloc i acc)
  then show ?case by auto
next
  case (2 kmalloc i d ds acc)
  from "2.prems" have p: "kmalloc i \<noteq> NULL" by (auto simp: Let_def split: if_splits)
  obtain l1 tr1 b where r: "init_loop kmalloc (i + 1) ds ((kmalloc i, d) # acc) = (l1, tr1, b)"
    by (cases "init_loop kmalloc (i + 1) ds ((kmalloc i, d) # acc)") auto
  with p "2.prems" have eqs: "l1 = l" "b = True" "tr = [Pci_dev_get (pci_id d), Kmalloc (kmalloc i),
      Pci_dev_get (pci_id d), Pci_dev_put (pci_id d)] @ tr1" by (auto simp: Let_def)
  from "2.IH" [OF refl refl p] r eqs p show ?case
    by (auto simp: give_back_def add_mset_commute)
qed

lemma init_loop_failed:
  assumes "init_loop kmalloc i ds acc = (l, tr, False)"
  shows "\<exists>d \<in> set ds. kres_run tr (list_res acc) = Some (add_mset (DevRef (pci_id d)) (list_res l))"
  using assms
proof (induction kmalloc i ds acc arbitrary: tr rule: init_loop.induct)
  case (1 kmalloc i acc)
  then show ?case by simp
next
  case (2 kmalloc i d ds acc)
  show ?case
  proof (cases "kmalloc i = NULL")
    case True
    with "2.prems" show ?thesis by (auto simp: Let_def)
  next
    case False
    obtain l1 tr1 b where r: "init_loop kmalloc (i + 1) ds ((kmalloc i, d) # acc) = (l1, tr1, b)"
      by (cases "init_loop kmalloc (i + 1) ds ((kmalloc i, d) # acc)") auto
    with False "2.prems" have eqs: "l1 = l" "b = False" "tr = [Pci_dev_get (pci_id d),
        Kmalloc (kmalloc i), Pci_dev_get (pci_id d), Pci_dev_put (pci_id d)] @ tr1"
      by (auto simp: Let_def)
    from "2.IH" [OF refl refl False] r eqs False show ?thesis
      by (auto simp: give_back_def add_mset_commute)
  qed
qed

lemma exit_frees:
  "NULL \<notin> fst ` set l \<Longrightarrow>
   kres_run (concat (map (\<lambda>(p, d). [Pci_dev_put (pci_id d), Kfree p]) l)) (add_mset PciDriver (list_res l)) =
   Some {#PciDriver#}"
proof (induction l)
  case Nil
  then show ?case by simp
next
  case (Cons e l)
  then show ?case by (cases e) (auto simp: give_back_def add_mset_commute [of PciDriver])
qed

text \<open>The byte of a word read as a signed number: a byte from 0x80 on comes out negative.\<close>

definition sign8 :: "u32 \<Rightarrow> u32" where
  "sign8 b = (if bit b 7 then b OR 0xffffff00 else b)"

lemma byte_masks: "(0xff :: u32) = mask 8" "(0xffffff00 :: u32) = NOT (mask 8)"
  by (simp_all add: mask_eq_exp_minus_1)

lemma nibble_masks: "(0xf :: u32) = mask 4" "(0xf0 :: u32) = push_bit 4 (mask 4)"
  by (simp_all add: mask_eq_exp_minus_1)

lemma char_at_sign8: "char_at w i = sign8 (drop_bit (8 * i) w AND 0xff)"
  unfolding byte_masks sign8_def
proof (rule bit_word_eqI)
  let ?b = "drop_bit (8 * i) w AND mask 8"
  fix n assume n: "n < LENGTH(32)"
  show "bit (char_at w i) n = bit (if bit ?b 7 then ?b OR NOT (mask 8) else ?b) n"
  proof (cases "n < 8")
    case True
    then have "n = 7 \<or> n < 7" by linarith
    with True show ?thesis by (auto simp: char_at_def bit_simps)
  next
    case False
    then have "min n 7 = 7" by simp
    with False n show ?thesis by (simp add: char_at_def bit_simps)
  qed
qed

lemma char_at_nibbles:
  "char_at up 0 AND 0xf = up AND 0xf" "drop_bit 4 (char_at up 0 AND 0xf0) = drop_bit 4 up AND 0xf"
  unfolding nibble_masks char_at_sign8 sign8_def byte_masks
  by (rule bit_word_eqI; auto simp: bit_simps)+

section \<open>Properties\<close>

text \<open>
  C27: On unload the first loop prints exactly the devices present that are at no place at
  which a device was when the module was loaded, each once and in order.
\<close>

theorem plugged_detected:
  assumes "my_init_08 kmalloc r devs0 = (l, tr, Inr q)"
  shows "plugged_loop abi l devs =
    map dev_ids (filter (\<lambda>d. \<forall>d0 \<in> set devs0. \<not> same_place abi d d0) devs)"
proof -
  from assms obtain tr1 where "init_loop kmalloc 0 devs0 [] = (l, tr1, True)"
    by (auto simp: my_init_08_def Let_def split: prod.splits if_splits)
  from init_loop_done [OF this] have "map snd l = rev devs0" by simp
  then have "set devs0 = snd ` set l" by (metis set_map set_rev)
  then show ?thesis by (auto simp: plugged_loop_filter intro: arg_cong [where f = "map dev_ids"] filter_cong)
qed

definition a_dev :: "nat \<Rightarrow> pci_dev" where
  "a_dev n = \<lparr>pci_id = n, pci_domain = 0, pci_bus = 0, devfn = of_nat (8 * n), vendor = 0x18ec,
     device = 0xc058\<rparr>"

definition shift_abi :: pci_abi where
  "shift_abi = \<lparr>PCI_SLOT = (\<lambda>d. drop_bit 3 d AND 0x1f), PCI_FUNC = (\<lambda>d. d AND 7)\<rparr>"

lemma a_dev_places:
  "same_place shift_abi (a_dev 1) (a_dev 1)" "\<not> same_place shift_abi (a_dev 1) (a_dev 2)"
  "\<not> same_place shift_abi (a_dev 2) (a_dev 1)" "\<not> same_place shift_abi (a_dev 3) (a_dev 1)"
  "same_place shift_abi (a_dev 2) (a_dev 2)" "\<not> same_place shift_abi (a_dev 3) (a_dev 2)"
  by (simp_all add: same_place_def a_dev_def shift_abi_def)

lemma list_good_init:
  "\<exists>tr. my_init_08 (\<lambda>i. 0x1000 + of_nat i) 0 [a_dev 1, a_dev 2] =
     ([(0x1001, a_dev 2), (0x1000, a_dev 1)], tr, Inr 0)"
  by (simp add: my_init_08_def Let_def)

theorem plugged_detected_witness:
  "plugged_loop shift_abi [(0x1001, a_dev 2), (0x1000, a_dev 1)] [a_dev 2, a_dev 3] =
     [(0x18ec, 0xc058)]"
proof -
  obtain tr where "my_init_08 (\<lambda>i. 0x1000 + of_nat i) 0 [a_dev 1, a_dev 2] =
     ([(0x1001, a_dev 2), (0x1000, a_dev 1)], tr, Inr 0)" using list_good_init by blast
  from plugged_detected [OF this, of shift_abi "[a_dev 2, a_dev 3]"] a_dev_places show ?thesis
    by simp (simp add: dev_ids_def a_dev_def)
qed

text \<open>
  C28: The second loop, meant to print the devices that were removed, prints for every device of
  the snapshot the devices present that come before it in the system, and all of them if it
  was removed; whatever it prints is the identity of a device that is present.
\<close>

theorem removed_prints_present:
  "removed_loop abi devs l =
     concat (map (\<lambda>p. map dev_ids (takeWhile (\<lambda>d. \<not> same_place abi d (snd p)) devs)) l) \<and>
   set (removed_loop abi devs l) \<subseteq> dev_ids ` set devs"
  by (auto simp: removed_loop_takeWhile dest: set_takeWhileD)

text \<open>
  C29: After a load that succeeds, unloading gives back every list entry and every device
  reference, whatever devices came and went in between. A load that runs out of memory fails
  with \<open>EIO\<close> and keeps all entries and references made so far, and one more reference for the
  device the iteration stood at.
\<close>

theorem list_load_unload:
  assumes "my_init_08 kmalloc 0 devs = (l, tr, res)"
  shows "(res = Inr 0 \<and> map snd l = rev devs \<and>
      kres_run (tr @ snd (my_exit_08 abi l devs1)) {#} = Some {#}) \<or>
    (res = Inl EIO \<and>
      (\<exists>d \<in> set devs. kres_run tr {#} = Some (add_mset (DevRef (pci_id d)) (list_res l))))"
proof -
  obtain tr1 fin where r: "init_loop kmalloc 0 devs [] = (l, tr1, fin)"
    using assms by (auto simp: my_init_08_def Let_def split: prod.splits if_splits)
  show ?thesis
  proof (cases fin)
    case True
    with r init_loop_done [of kmalloc 0 devs "[]" l tr1] have
      "map snd l = rev devs" "kres_run tr1 {#} = Some (list_res l)" "NULL \<notin> fst ` set l" by auto
    with r True assms exit_frees [of l] show ?thesis
      by (auto simp: my_init_08_def my_exit_08_def kres_run_append give_back_def)
  next
    case False
    with r init_loop_failed [of kmalloc 0 devs "[]" l tr1] assms show ?thesis
      by (auto simp: my_init_08_def)
  qed
qed

theorem list_load_unload_witness:
  "\<exists>tr. my_init_08 (\<lambda>i. 0x1000 + of_nat i) 0 [a_dev 1, a_dev 2] =
      ([(0x1001, a_dev 2), (0x1000, a_dev 1)], tr, Inr 0) \<and>
    kres_run (tr @ snd (my_exit_08 shift_abi [(0x1001, a_dev 2), (0x1000, a_dev 1)] [])) {#} =
      Some {#}"
proof -
  obtain tr where tr: "my_init_08 (\<lambda>i. 0x1000 + of_nat i) 0 [a_dev 1, a_dev 2] =
     ([(0x1001, a_dev 2), (0x1000, a_dev 1)], tr, Inr 0)" using list_good_init by blast
  from list_load_unload [OF tr, of shift_abi "[]"]
  have "kres_run (tr @ snd (my_exit_08 shift_abi [(0x1001, a_dev 2), (0x1000, a_dev 1)] [])) {#} =
      Some {#}" by blast
  with tr show ?thesis by blast
qed

text \<open>
  What the probe prints of the two information words: year and month are the two nibbles of
  the lowest byte, the other fields are bytes read through a signed \<open>char\<close>, so a byte from
  0x80 on is printed as a negative number (``%x'' shows it with 24 leading ones).
\<close>

theorem bridge_info_decoded:
  "decode_info low up =
     \<lparr>major = sign8 (drop_bit 16 low AND 0xff), minor = sign8 (drop_bit 24 low AND 0xff),
      year = drop_bit 4 up AND 0xf, month = up AND 0xf,
      day = sign8 (drop_bit 8 up AND 0xff), hour = sign8 (drop_bit 16 up AND 0xff),
      minute = sign8 (drop_bit 24 up AND 0xff)\<rparr>"
  unfolding decode_info_def char_at_nibbles by (simp add: char_at_sign8)

end
