(* ===== verification/Dma_Card.thy ===== *)
theory Dma_Card
  imports Irq_Card
begin

text \<open>
  The DMA driver of homework 11 for the COMBO card, \<open>11/homework/pb173.c\<close>. Its probe copies a
  string from a DMA page to the card and back by two transfers it polls for, then starts a
  third one that ends in an interrupt; the handler schedules a tasklet that prints what
  arrived. The page can be mapped into a process. The card's DMA engine is an argument of the
  model, as are the values read from its registers. Messages to the log are not modelled,
  except for the string the tasklet prints.
\<close>

section \<open>State\<close>

definition REG_SRC :: nat where "REG_SRC = 0x80"
definition REG_DST :: nat where "REG_DST = 0x84"
definition REG_COUNT :: nat where "REG_COUNT = 0x88"
definition REG_CMD :: nat where "REG_CMD = 0x8c"

lemmas dma_regs = REG_SRC_def REG_DST_def REG_COUNT_def REG_CMD_def

text \<open>The two global pointers of the module, shared by all its cards.\<close>

record dma_globals =
  task :: addr
  dma_virt_addr :: addr

text \<open>
  The help structure: \<open>p_self\<close> is its address, \<open>p_card\<close> the device. The timer is a field of
  the structure; it is named by the address of the structure.
\<close>

record dma_card =
  p_virt :: addr
  p_dma_virt :: addr
  p_dma_phys :: u64
  p_self :: addr
  p_card :: nat

text \<open>
  What the kernel and the card answer to the calls of one probe, in their order; \<open>d_poll1\<close> and
  \<open>d_poll2\<close> are the successive values of the command register in the two polling loops.
\<close>

record dma_env =
  d_card :: nat
  d_task :: addr
  d_enable :: int
  d_mask :: int
  d_region :: int
  d_virt :: addr
  d_help :: addr
  d_dma :: addr
  d_phys :: u64
  d_poll1 :: "nat \<Rightarrow> u32"
  d_poll2 :: "nat \<Rightarrow> u32"
  d_irq :: int

section \<open>Transfers\<close>

text \<open>
  The polling loop, from the value \<open>cmd\<close> and the number \<open>i\<close> of reads made so far: the number
  of reads when it ends, \<open>None\<close> if it never does.
\<close>

partial_function (option) wait_cmd :: "(nat \<Rightarrow> u32) \<Rightarrow> u32 \<Rightarrow> nat \<Rightarrow> nat option" where
  "wait_cmd rd cmd i = (if cmd AND 1 \<noteq> 0 then wait_cmd rd (rd i) (i + 1) else Some i)"

definition transfer_11 :: "addr \<Rightarrow> u32 \<Rightarrow> u32 \<Rightarrow> u32 \<Rightarrow> kcall list" where
  "transfer_11 v src dst cmd =
     [Writel src v REG_SRC, Writel dst v REG_DST, Writel 10 v REG_COUNT, Writel cmd v REG_CMD]"

definition cmd_to_card :: u32 where
  "cmd_to_card = 1 OR push_bit 1 2 OR push_bit 4 4 OR push_bit 7 1"

definition cmd_from_card :: u32 where
  "cmd_from_card = 1 OR push_bit 1 4 OR push_bit 4 2 OR push_bit 7 1"

definition cmd_from_card_irq :: u32 where
  "cmd_from_card_irq = 1 OR push_bit 1 4 OR push_bit 4 2"

definition hello :: "byte list" where
  "hello = str_bytes ''Hello,man!''"

section \<open>The driver\<close>

definition my_probe_11 ::
  "dma_globals \<Rightarrow> dma_env \<Rightarrow> (dma_globals \<times> kcall list \<times> (errno + dma_card)) option" where
  "my_probe_11 st0 e =
     (let pdev = d_card e; v = d_virt e; p = d_help e; phys = d_phys e;
          st1 = st0\<lparr>task := d_task e\<rparr>; tr1 = [Kmalloc (d_task e)]
      in if d_task e = NULL then Some (st1, tr1, Inl ENOMEM) else
      let tr2 = tr1 @ [Pci_enable_device pdev (d_enable e)]
      in if d_enable e \<noteq> 0 then Some (st1, tr2, Inl EIO) else
      let tr3 = tr2 @ [Pci_set_dma_mask pdev (d_mask e)]
      in if d_mask e \<noteq> 0 then Some (st1, tr3, Inl EIO) else
      let tr4 = tr3 @ [Pci_set_master pdev, Pci_request_regions pdev (d_region e)]
      in if d_region e \<noteq> 0 then Some (st1, tr4, Inl EBUSY) else
      let tr5 = tr4 @ [Ioremap v]
      in if v = NULL then Some (st1, tr5, Inl ENOMEM) else
      let tr6 = tr5 @ [Kmalloc p]
      in if p = NULL then Some (st1, tr6, Inl ENOMEM) else
      let st2 = st1\<lparr>dma_virt_addr := d_dma e\<rparr>; tr7 = tr6 @ [Dma_alloc (d_dma e)]
      in if d_dma e = NULL then Some (st2, tr7, Inl ENOMEM) else
      let tr8 = tr7 @ [Dma_store (d_dma e) 0 (hello @ [0])] @
            transfer_11 v (ucast phys) 0x40000 cmd_to_card
      in case wait_cmd (d_poll1 e) cmd_to_card 0 of None \<Rightarrow> None | Some n1 \<Rightarrow>
      let tr9 = tr8 @ replicate n1 (Readl v REG_CMD) @
            transfer_11 v 0x40000 (ucast (phys + 0xa)) cmd_from_card
      in case wait_cmd (d_poll2 e) cmd_from_card 0 of None \<Rightarrow> None | Some n2 \<Rightarrow>
      let tr10 = tr9 @ replicate n2 (Readl v REG_CMD) @
            [Setup_timer p, Set_drvdata pdev p, Request_irq p (d_irq e)]
      in if d_irq e \<noteq> 0 then Some (st2, tr10, Inl (EKERNEL (d_irq e))) else
      Some (st2,
        tr10 @ [Writel 0x1000 v REG_ENABLE, Writel 0x100 v REG_ENABLE] @
          transfer_11 v 0x40000 (ucast (phys + 0x14)) cmd_from_card_irq @ [Mod_timer p],
        Inr \<lparr>p_virt = v, p_dma_virt = d_dma e, p_dma_phys = phys, p_self = p, p_card = pdev\<rparr>))"

definition my_remove_11 :: "dma_globals \<Rightarrow> dma_card \<Rightarrow> dma_globals \<times> kcall list" where
  "my_remove_11 st p =
     (let (st1, tr1) =
            (if task st \<noteq> NULL
             then (st\<lparr>task := NULL\<rparr>, [Tasklet_kill (task st), Kfree (task st)]) else (st, []))
      in (st1, tr1 @
           [Del_timer_sync (p_self p), Free_irq (p_self p), Dma_free (p_dma_virt p),
            Iounmap (p_virt p), Pci_release_regions (p_card p), Pci_disable_device (p_card p),
            Kfree (p_self p)]))"

text \<open>\<open>interrupt\<close> and \<open>cmd\<close> are what the registers 0x40 and 0x8c read.\<close>

definition my_handler_11 :: "addr \<times> dma_card \<Rightarrow> u32 \<times> u32 \<Rightarrow> irqreturn \<times> kcall list" where
  "my_handler_11 d h =
     (let (tsk, p) = d; (interrupt, cmd) = h; v = p_virt p; rd = Readl v REG_RAISED
      in if interrupt = 0 then (IRQ_NONE, [rd])
         else (IRQ_HANDLED,
           [rd, Writel interrupt v REG_ACK] @
           (if interrupt = 0x100
            then [Readl v REG_CMD, Writel (cmd OR push_bit 31 1) v REG_CMD,
                  Tasklet_init tsk (p_dma_virt p + 0x14), Tasklet_schedule tsk]
            else [])))"

definition raise_intr_11 :: "dma_card \<Rightarrow> kcall list" where
  "raise_intr_11 p = [Writel 0x1000 (p_virt p) REG_RAISE, Mod_timer (p_self p)]"

text \<open>The tasklet prints the C string at its argument; \<open>page\<close> is the content of the DMA page.\<close>

definition tasklet_fn :: "byte list \<Rightarrow> addr \<Rightarrow> dma_card \<Rightarrow> kcall list" where
  "tasklet_fn page data p =
     [Printk (str_bytes ''DMA page + 20 content: '' @
        cstr (drop (unat (data - p_dma_virt p)) page) @ str_bytes '' '' @ [10])]"

text \<open>
  Mapping the page into a process: \<open>v2p\<close> is \<open>virt_to_phys\<close> and \<open>remap\<close> what
  \<open>remap_pfn_range\<close> returns for a start, a frame number and a size.
\<close>

definition my_mmap_11 ::
  "(addr \<Rightarrow> u64) \<Rightarrow> (u64 \<Rightarrow> u64 \<Rightarrow> u64 \<Rightarrow> errno + unit) \<Rightarrow> dma_globals \<Rightarrow> vm_area \<Rightarrow> errno + unit" where
  "my_mmap_11 v2p remap st vma =
     (if PAGE_SIZE < vm_end vma - vm_start vma then Inl EINVAL
      else if vm_flags vma AND (VM_WRITE OR VM_READ) \<noteq> VM_READ then Inl EINVAL
      else if dma_virt_addr st = NULL then Inl EBUSY
      else remap (vm_start vma) (drop_bit 12 (v2p (dma_virt_addr st))) PAGE_SIZE)"

text \<open>The result of \<open>misc_register\<close> is ignored.\<close>

definition my_init_11 :: "int \<Rightarrow> int \<Rightarrow> kcall list \<times> int" where
  "my_init_11 m r = ([Misc_register 0 m, Pci_register_driver r], r)"

definition my_exit_11 :: "kcall list" where
  "my_exit_11 = [Misc_deregister 0, Pci_unregister_driver]"

section \<open>The polling loop ends when the start bit clears\<close>

lemma wait_cmd_ends:
  "\<forall>k < n. rd (i + k) AND 1 \<noteq> 0 \<Longrightarrow> rd (i + n) AND 1 = 0 \<Longrightarrow>
   wait_cmd rd (rd i) (i + 1) = Some (i + n + 1)"
proof (induction n arbitrary: i)
  case 0
  then show ?case by (simp add: wait_cmd.simps)
next
  case (Suc n)
  from Suc.prems(1) have "rd i AND 1 \<noteq> 0" by (auto dest: spec [of _ 0])
  moreover have "\<forall>k < n. rd (i + 1 + k) AND 1 \<noteq> 0"
    using Suc.prems(1) by (auto dest: spec [of _ "Suc k" for k])
  ultimately show ?case
    using Suc.IH [of "i + 1"] Suc.prems(2) by (simp add: wait_cmd.simps [of rd "rd i"])
qed

lemma wait_cmd_clear:
  assumes "wait_cmd rd cmd i = Some n"
  shows "cmd AND 1 = 0 \<or> (\<exists>k. rd k AND 1 = 0)"
  by (rule wait_cmd.raw_induct [OF _ assms, where P = "\<lambda>rd cmd i n. cmd AND 1 = 0 \<or> (\<exists>k. rd k AND 1 = 0)"])
    (metis (full_types))

lemma wait_cmd_result:
  assumes "cmd AND 1 \<noteq> 0"
  shows "wait_cmd rd cmd 0 =
    (if \<exists>k. rd k AND 1 = 0 then Some (Suc (LEAST k. rd k AND 1 = 0)) else None)"
proof (cases "\<exists>k. rd k AND 1 = 0")
  case True
  then obtain n where n: "rd n AND 1 = 0" "\<forall>k < n. rd k AND 1 \<noteq> 0"
    using exists_least_iff [of "\<lambda>k. rd k AND 1 = 0"] by blast
  then have least: "(LEAST k. rd k AND 1 = 0) = n"
    by (intro Least_equality) (metis, metis not_le)
  have "wait_cmd rd (rd 0) 1 = Some (Suc n)" using wait_cmd_ends [of n rd 0] n by simp
  with assms have "wait_cmd rd cmd 0 = Some (Suc n)" by (simp add: wait_cmd.simps [of rd cmd])
  with True show ?thesis unfolding least by (simp only: if_True)
next
  case False
  with assms have "wait_cmd rd cmd 0 = None"
    using wait_cmd_clear [of rd cmd 0] by (cases "wait_cmd rd cmd 0") blast+
  with False show ?thesis by (simp only: if_False)
qed

lemma cmd_bits:
  "cmd_to_card = 0xC5" "cmd_from_card = 0xA9" "cmd_from_card_irq = 0x29"
  by (simp_all add: cmd_to_card_def cmd_from_card_def cmd_from_card_irq_def)

section \<open>The contracts\<close>

datatype dma_event = Dma_irq "u32 \<times> u32" | Dma_timer | Dma_tasklet "byte list"

fun dma_handle :: "dma_globals \<Rightarrow> dma_card \<Rightarrow> dma_event \<Rightarrow> kcall list" where
  "dma_handle st p (Dma_irq h) = snd (my_handler_11 (task st, p) h)"
| "dma_handle st p Dma_timer = raise_intr_11 p"
| "dma_handle st p (Dma_tasklet page) = tasklet_fn page (p_dma_virt p + 0x14) p"

definition dma_res :: "addr \<Rightarrow> dma_card \<Rightarrow> kres multiset" where
  "dma_res tsk p = {#Mem tsk, DevEnabled (p_card p), Regions (p_card p), Mapped (p_virt p),
     Mem (p_self p), DmaPage (p_dma_virt p), Irq (p_self p), Armed (p_self p)#}"

definition dma_live :: "dma_globals \<Rightarrow> dma_card \<Rightarrow> kres multiset \<Rightarrow> bool" where
  "dma_live st p H \<longleftrightarrow> task st \<noteq> NULL \<and> p_self p \<noteq> NULL \<and> task st \<noteq> p_self p \<and>
     (H = dma_res (task st) p \<or> H = add_mset (Queued (task st)) (dma_res (task st) p))"

text \<open>
  The kernel does not hand out a block that is still allocated, and both polled transfers
  complete.
\<close>

definition dma_env_ok :: "dma_env \<Rightarrow> bool" where
  "dma_env_ok e \<longleftrightarrow> d_task e \<noteq> d_help e \<and> wait_cmd (d_poll1 e) cmd_to_card 0 \<noteq> None \<and>
     wait_cmd (d_poll2 e) cmd_from_card 0 \<noteq> None"

definition dma_lost :: "dma_env \<Rightarrow> kres multiset" where
  "dma_lost e =
     (let d = d_card e; H1 = {#Mem (d_task e)#}; H2 = add_mset (DevEnabled d) H1;
          H3 = add_mset (Regions d) H2; H4 = add_mset (Mapped (d_virt e)) H3;
          H5 = add_mset (Mem (d_help e)) H4; H6 = add_mset (DmaPage (d_dma e)) H5
      in if d_task e = NULL then {#}
         else if d_enable e \<noteq> 0 then H1
         else if d_mask e \<noteq> 0 \<or> d_region e \<noteq> 0 then H2
         else if d_virt e = NULL then H3
         else if d_help e = NULL then H4
         else if d_dma e = NULL then H5
         else if d_irq e \<noteq> 0 then H6
         else {#})"

lemma kres_run_reads: "Mapped b \<in># H \<Longrightarrow> kres_run (replicate n (Readl b off)) H = Some H"
  by (induction n) simp_all

lemma kres_run_writes:
  "Mapped v \<in># H \<Longrightarrow> kres_run (transfer_11 v src dst cmd) H = Some H"
  by (simp add: transfer_11_def)

lemmas dma_trace = kres_run_append kres_run_reads kres_run_writes Let_def add_mset_commute

lemma my_probe_11_lost:
  "my_probe_11 st e = Some (st1, tr, Inl err) \<Longrightarrow> kres_run tr {#} = Some (dma_lost e)"
  by (simp add: my_probe_11_def dma_lost_def dma_trace split: if_splits option.splits)
    (auto simp: dma_trace)

lemma my_probe_11_bound:
  assumes "dma_env_ok e" and "my_probe_11 st e = Some (st1, tr, Inr p)"
  shows "kres_run tr {#} = Some (dma_res (task st1) p) \<and> dma_live st1 p (dma_res (task st1) p) \<and>
    dma_lost e = {#}"
proof -
  from assms have c: "d_task e \<noteq> NULL" "d_enable e = 0" "d_mask e = 0" "d_region e = 0"
    "d_virt e \<noteq> NULL" "d_help e \<noteq> NULL" "d_dma e \<noteq> NULL" "d_irq e = 0" "d_task e \<noteq> d_help e"
    by (auto simp: my_probe_11_def dma_env_ok_def Let_def split: if_splits option.splits)
  with assms(2) show ?thesis
    by (auto simp: my_probe_11_def dma_trace dma_res_def dma_live_def dma_lost_def
        split: option.splits)
qed

lemma my_probe_11_ends: "dma_env_ok e \<Longrightarrow> \<exists>x. my_probe_11 st e = Some x"
  by (auto simp: my_probe_11_def dma_env_ok_def Let_def)

lemma dma_lost_inert: "inert (dma_lost e)"
  by (auto simp: dma_lost_def inert_def Let_def)

lemma dma_handle_live:
  assumes "dma_live st p H"
  shows "\<exists>H1. kres_run (dma_handle st p ev) H = Some H1 \<and> dma_live st p H1"
proof -
  from assms consider "H = dma_res (task st) p" | "H = add_mset (Queued (task st)) (dma_res (task st) p)"
    by (auto simp: dma_live_def)
  then show ?thesis
  proof cases
    case 1
    with assms show ?thesis
      by (cases ev) (auto simp: dma_live_def dma_res_def my_handler_11_def raise_intr_11_def
          tasklet_fn_def Let_def)
  next
    case 2
    with assms show ?thesis
      by (cases ev) (auto simp: dma_live_def dma_res_def my_handler_11_def raise_intr_11_def
          tasklet_fn_def Let_def)
  qed
qed

lemma my_remove_11_clean:
  assumes "dma_live st p H"
  shows "kres_run (snd (my_remove_11 st p)) H = Some {#}"
proof -
  from assms have "kres_step (Tasklet_kill (task st)) H = Some (dma_res (task st) p)"
    by (auto simp: dma_live_def dma_res_def)
  with assms show ?thesis
    by (auto simp: my_remove_11_def dma_live_def dma_res_def accounting)
qed

abbreviation dma_probe ::
  "dma_globals \<Rightarrow> dma_env \<Rightarrow> dma_globals \<times> kcall list \<times> (errno + dma_card)" where
  "dma_probe \<equiv> (\<lambda>st e. the (my_probe_11 st e))"

lemma dma_probe_Some: "dma_env_ok e \<Longrightarrow> dma_probe st e = x \<longleftrightarrow> my_probe_11 st e = Some x"
  using my_probe_11_ends [of e st] by auto

interpretation dma: leaky_pci_driver dma_probe my_remove_11 dma_handle dma_live dma_env_ok dma_lost
proof
  show "\<exists>H. kres_run tr {#} = Some H \<and> dma_live st1 p H"
    if "dma_env_ok e" "dma_probe st e = (st1, tr, Inr p)" for e st st1 tr p
    using that my_probe_11_bound [of e st st1 tr p] by (auto simp: dma_probe_Some)
  show "dma_lost e = {#}" if "dma_env_ok e" "dma_probe st e = (st1, tr, Inr p)" for e st st1 tr p
    using that my_probe_11_bound [of e st st1 tr p] by (simp add: dma_probe_Some)
  show "kres_run tr {#} = Some (dma_lost e)"
    if "dma_env_ok e" "dma_probe st e = (st1, tr, Inl err)" for e st st1 tr err
    using that my_probe_11_lost [of st e st1 tr err] by (simp add: dma_probe_Some)
qed (simp_all add: dma_handle_live my_remove_11_clean dma_lost_inert)

interpretation dma_irq: irq_handler my_handler_11 "\<lambda>d. p_virt (snd d)" "\<lambda>h. fst h \<noteq> 0"
  "\<lambda>h. (fst h, REG_ACK) # (if fst h = 0x100 then [(snd h OR push_bit 31 1, REG_CMD)] else [])"
  by unfold_locales (auto simp: my_handler_11_def Let_def split: if_splits)

section \<open>What the transfers move\<close>

text \<open>
  The memory actions among the calls of a trace, in order: the processor storing into the DMA
  page, and a transfer started with the values the source, destination and count registers
  hold when a command with the start bit is written.
\<close>

datatype dma_act = Cpu_store nat "byte list" | Transfer u32 u32 u32 u32

fun dma_acts :: "kcall list \<Rightarrow> u32 \<times> u32 \<times> u32 \<Rightarrow> dma_act list" where
  "dma_acts [] r = []"
| "dma_acts (Dma_store p off bs # cs) r = Cpu_store off bs # dma_acts cs r"
| "dma_acts (Writel v b off # cs) (src, dst, n) =
     (if off = REG_SRC then dma_acts cs (v, dst, n)
      else if off = REG_DST then dma_acts cs (src, v, n)
      else if off = REG_COUNT then dma_acts cs (src, dst, v)
      else if off = REG_CMD \<and> v AND 1 \<noteq> 0 then Transfer v src dst n # dma_acts cs (src, dst, n)
      else dma_acts cs (src, dst, n))"
| "dma_acts (_ # cs) r = dma_acts cs r"

text \<open>Bus memory of the host and memory of the card, both by 32-bit address.\<close>

type_synonym dma_mem = "(u32 \<Rightarrow> byte) \<times> (u32 \<Rightarrow> byte)"

text \<open>The card's engine: command, source, destination and count to the change of the memories.\<close>

type_synonym dma_engine = "u32 \<Rightarrow> u32 \<Rightarrow> u32 \<Rightarrow> u32 \<Rightarrow> dma_mem \<Rightarrow> dma_mem"

definition copy_bytes :: "(u32 \<Rightarrow> byte) \<Rightarrow> u32 \<Rightarrow> u32 \<Rightarrow> u32 \<Rightarrow> (u32 \<Rightarrow> byte) \<Rightarrow> u32 \<Rightarrow> byte" where
  "copy_bytes from src dst n to_mem a = (if a - dst < n then from (src + (a - dst)) else to_mem a)"

text \<open>
  What the driver relies on: with the start bit set, source 2 (PCI) and destination 4
  (PowerPC) in bits 1 to 3 and 4 to 6, the engine copies from the host to the card; with the
  two exchanged, from the card to the host.
\<close>

definition engine_ok :: "dma_engine \<Rightarrow> bool" where
  "engine_ok eng \<longleftrightarrow> (\<forall>cmd src dst n h c. cmd AND 1 \<noteq> 0 \<longrightarrow>
     (drop_bit 1 cmd AND 7 = 2 \<and> drop_bit 4 cmd AND 7 = 4 \<longrightarrow>
        eng cmd src dst n (h, c) = (h, copy_bytes h src dst n c)) \<and>
     (drop_bit 1 cmd AND 7 = 4 \<and> drop_bit 4 cmd AND 7 = 2 \<longrightarrow>
        eng cmd src dst n (h, c) = (copy_bytes c src dst n h, c)))"

text \<open>An engine that does exactly this.\<close>

definition engine_copy :: dma_engine where
  "engine_copy cmd src dst n m =
     (if drop_bit 1 cmd AND 7 = 2 then (fst m, copy_bytes (fst m) src dst n (snd m))
      else (copy_bytes (snd m) src dst n (fst m), snd m))"

lemma engine_ok_copy: "engine_ok engine_copy"
  by (simp add: engine_ok_def engine_copy_def)

fun dma_do :: "dma_engine \<Rightarrow> u32 \<Rightarrow> dma_act \<Rightarrow> dma_mem \<Rightarrow> dma_mem" where
  "dma_do eng page (Cpu_store off bs) (h, c) =
     ((\<lambda>a. if unat (a - (page + of_nat off)) < length bs
           then bs ! unat (a - (page + of_nat off)) else h a), c)"
| "dma_do eng page (Transfer cmd src dst n) m = eng cmd src dst n m"

definition page_of :: "u32 \<Rightarrow> (u32 \<Rightarrow> byte) \<Rightarrow> byte list" where
  "page_of page h = map (\<lambda>i. h (page + of_nat i)) [0..<4096]"

lemma dma_acts_reads: "dma_acts (replicate n (Readl b off) @ cs) r = dma_acts cs r"
  by (induction n) simp_all

lemma dma_acts_transfer:
  "cmd AND 1 \<noteq> 0 \<Longrightarrow> dma_acts (transfer_11 v src dst cmd @ cs) r =
   Transfer cmd src dst 10 # dma_acts cs (src, dst, 10)"
  by (cases r) (simp add: transfer_11_def dma_regs)

lemma ucast_add_32: "(ucast (w + n :: u64) :: u32) = ucast w + ucast n"
proof -
  have "take_bit 32 (a + b) = take_bit 32 (take_bit 64 a + take_bit 64 b)" for a b :: int
    using take_bit_add [of 32 "take_bit 64 a" "take_bit 64 b"] take_bit_add [of 32 a b] by simp
  then show ?thesis by transfer simp
qed

lemma my_probe_11_acts:
  assumes "my_probe_11 st e = Some (st1, tr, Inr p)"
  shows "dma_acts tr r = [Cpu_store 0 (hello @ [0]),
    Transfer cmd_to_card (ucast (d_phys e)) 0x40000 10,
    Transfer cmd_from_card 0x40000 (ucast (d_phys e) + 10) 10,
    Transfer cmd_from_card_irq 0x40000 (ucast (d_phys e) + 20) 10]"
  using assms
  by (auto simp: my_probe_11_def Let_def dma_acts_reads dma_acts_transfer cmd_bits ucast_add_32
      dma_regs card_regs split: if_splits option.splits)

text \<open>The memories after the four actions, by their distance from the start of the page.\<close>

lemma engine_cmds:
  assumes "engine_ok eng"
  shows "eng cmd_to_card src dst n (h, c) = (h, copy_bytes h src dst n c)"
    and "eng cmd_from_card src dst n (h, c) = (copy_bytes c src dst n h, c)"
    and "eng cmd_from_card_irq src dst n (h, c) = (copy_bytes c src dst n h, c)"
  using assms by (simp_all add: engine_ok_def cmd_bits)

lemma hello_bytes: "hello = [0x48, 0x65, 0x6c, 0x6c, 0x6f, 0x2c, 0x6d, 0x61, 0x6e, 0x21]"
  by (simp add: hello_def str_bytes_def)

definition hello_at :: "u32 \<Rightarrow> (u32 \<Rightarrow> byte) \<Rightarrow> u32 \<Rightarrow> byte" where
  "hello_at page h a = (if a - page < 10 then hello ! unat (a - page) else h a)"

lemma transfer_memory:
  assumes "engine_ok eng"
  shows "fold (dma_do eng page) [Cpu_store 0 (hello @ [0]), Transfer cmd_to_card page 0x40000 10,
      Transfer cmd_from_card 0x40000 (page + 10) 10,
      Transfer cmd_from_card_irq 0x40000 (page + 20) 10] (h, c) =
    (hello_at (page + 20) (hello_at (page + 10) (hello_at page h)), hello_at 0x40000 c)"
proof -
  let ?h1 = "\<lambda>a. if unat (a - page) < 11 then (hello @ [0]) ! unat (a - page) else h a"
  let ?c1 = "hello_at 0x40000 c"
  have len: "length hello = 10" by (simp add: hello_def)
  have c1: "copy_bytes ?h1 page 0x40000 10 c = ?c1"
    by (rule ext) (simp add: copy_bytes_def hello_at_def word_less_nat_alt nth_append len)
  have read: "?c1 (0x40000 + d) = hello ! unat d" if "d < 10" for d
    using that by (simp add: hello_at_def)
  have to: "copy_bytes ?c1 0x40000 q 10 g = hello_at q g" for q g
    by (rule ext) (simp add: copy_bytes_def hello_at_def [of q] read)
  have nul: "hello_at (page + 10) ?h1 = hello_at (page + 10) (hello_at page h)"
  proof
    fix a
    let ?d = "a - page"
    have "a - (page + 10) = ?d - 10" by simp
    moreover have "?d = 10" if "\<not> ?d < 10" "unat ?d < 11"
      using that by (simp add: word_less_nat_alt word_unat_eq_iff)
    ultimately show "hello_at (page + 10) ?h1 a = hello_at (page + 10) (hello_at page h) a"
      by (auto simp: hello_at_def nth_append len word_less_nat_alt)
  qed
  have "dma_do eng page (Cpu_store 0 (hello @ [0])) (h, c) = (?h1, c)"
    by (simp add: len fun_eq_iff)
  then show ?thesis by (simp only: fold_simps dma_do.simps(2) engine_cmds [OF assms] c1 to nul)
qed

lemma hello_thrice:
  assumes "unat d < 30"
  shows "hello_at (page + 20) (hello_at (page + 10) (hello_at page h)) (page + d) =
    hello ! (unat d mod 10)"
proof -
  have shift: "page + d - (page + n) = d - n" for n by simp
  have sub: "unat (d - n) = unat d - unat n" if "n \<le> d" for n
    using that by (rule unat_sub)
  consider "unat d < 10" | "10 \<le> unat d" "unat d < 20" | "20 \<le> unat d" by linarith
  then show ?thesis
  proof cases
    case 1
    then have "unat (d - 20) = unat d + 2 ^ 32 - 20" "unat (d - 10) = unat d + 2 ^ 32 - 10"
      using unsigned_less [where w = d and 'a = nat]
      by (simp_all add: unat_sub_if')
    with 1 show ?thesis by (simp add: hello_at_def shift word_less_nat_alt)
  next
    case 2
    then have "unat (d - 20) = unat d + 2 ^ 32 - 20" by (simp add: unat_sub_if')
    moreover have "unat (d - 10) = unat d - 10" using 2 sub [of 10] by (simp add: word_le_nat_alt)
    moreover have "unat d mod 10 = unat d - 10" using 2 by (simp add: mod_if)
    moreover have "unat d - 10 < 10" using 2 by arith
    ultimately show ?thesis using 2 by (simp add: hello_at_def shift word_less_nat_alt)
  next
    case 3
    then have "unat (d - 20) = unat d - 20" using sub [of 20] by (simp add: word_le_nat_alt)
    moreover have "unat d mod 10 = unat d - 20" using 3 assms by (simp add: mod_if)
    moreover have "unat d - 20 < 10" using 3 assms by arith
    ultimately show ?thesis using 3 assms by (simp add: hello_at_def shift word_less_nat_alt)
  qed
qed

lemma hello_outside:
  assumes "30 \<le> unat d"
  shows "hello_at (page + 20) (hello_at (page + 10) (hello_at page h)) (page + d) = h (page + d)"
proof -
  have shift: "page + d - (page + n) = d - n" for n by simp
  have "unat (d - n) = unat d - unat n" if "n \<le> d" for n
    using that by (rule unat_sub)
  from this [of 10] this [of 20] assms have "unat (d - 10) = unat d - 10"
    "unat (d - 20) = unat d - 20" by (simp_all add: word_le_nat_alt)
  moreover have "\<not> unat d - 10 < 10" "\<not> unat d - 20 < 10" using assms by arith+
  ultimately show ?thesis
    using assms by (simp add: hello_at_def shift word_less_nat_alt)
qed

lemma my_probe_11_memory:
  assumes "engine_ok eng" and "my_probe_11 st e = Some (st1, tr, Inr p)"
    and "fold (dma_do eng (ucast (d_phys e))) (dma_acts tr r) (h, c) = (h1, c1)"
  shows "h1 = hello_at (ucast (d_phys e) + 20)
      (hello_at (ucast (d_phys e) + 10) (hello_at (ucast (d_phys e)) h))"
    and "c1 = hello_at 0x40000 c"
  using transfer_memory [OF assms(1)] assms(3) by (simp_all add: my_probe_11_acts [OF assms(2)])

lemma page_filled:
  "page_of page (hello_at (page + 20) (hello_at (page + 10) (hello_at page h))) =
   hello @ hello @ hello @ drop 30 (page_of page h)" (is "page_of page ?h1 = _")
proof (rule nth_equalityI)
  have len: "length hello = 10" by (simp add: hello_def)
  show "length (page_of page ?h1) = length (hello @ hello @ hello @ drop 30 (page_of page h))"
    by (simp add: page_of_def len)
  fix i
  assume "i < length (page_of page ?h1)"
  then have i: "i < 4096" by (simp add: page_of_def)
  then have u: "unat (of_nat i :: u32) = i" by (simp add: unat_of_nat)
  show "page_of page ?h1 ! i = (hello @ hello @ hello @ drop 30 (page_of page h)) ! i"
  proof (cases "i < 30")
    case True
    with i u have "page_of page ?h1 ! i = hello ! (i mod 10)"
      using hello_thrice [of "of_nat i" page h] by (simp add: page_of_def)
    moreover consider "i < 10" | "10 \<le> i" "i < 20" | "20 \<le> i" "i < 30" using True by linarith
    then have "(hello @ hello @ hello @ drop 30 (page_of page h)) ! i = hello ! (i mod 10)"
      by cases (simp_all add: nth_append len mod_if)
    ultimately show ?thesis by simp
  next
    case False
    with i u have "page_of page ?h1 ! i = page_of page h ! i"
      using hello_outside [of "of_nat i" page h] by (simp add: page_of_def)
    moreover have "\<not> i - 10 < 10" "\<not> i - 20 < 10" using False by arith+
    ultimately show ?thesis using False i by (simp add: nth_append len page_of_def)
  qed
qed

section \<open>Properties\<close>

definition dma_good_env :: dma_env where
  "dma_good_env = \<lparr>d_card = 3, d_task = 0x1000, d_enable = 0, d_mask = 0, d_region = 0,
     d_virt = 0x8000, d_help = 0x2000, d_dma = 0x5000, d_phys = 0x7000,
     d_poll1 = (\<lambda>k. if k < 2 then 0xC5 else 0xC4), d_poll2 = (\<lambda>_. 0xA8), d_irq = 0\<rparr>"

definition dma_good_card :: dma_card where
  "dma_good_card = \<lparr>p_virt = 0x8000, p_dma_virt = 0x5000, p_dma_phys = 0x7000, p_self = 0x2000,
     p_card = 3\<rparr>"

definition dma_start :: dma_globals where
  "dma_start = \<lparr>task = NULL, dma_virt_addr = NULL\<rparr>"

lemma dma_good_waits:
  "wait_cmd (d_poll1 dma_good_env) cmd_to_card 0 = Some 3"
  "wait_cmd (d_poll2 dma_good_env) cmd_from_card 0 = Some 1"
  by (simp_all add: dma_good_env_def cmd_bits wait_cmd.simps)

lemma dma_good_ok: "dma_env_ok dma_good_env"
  by (simp add: dma_env_ok_def dma_good_waits) (simp add: dma_good_env_def)

lemma dma_good_probe:
  "\<exists>tr. my_probe_11 dma_start dma_good_env =
     Some (\<lparr>task = 0x1000, dma_virt_addr = 0x5000\<rparr>, tr, Inr dma_good_card)"
  using dma_good_waits
  by (simp add: my_probe_11_def Let_def dma_good_env_def dma_good_card_def dma_start_def)



text \<open>
  C20: The end-to-end effect of a probe that succeeds, for an engine that copies what it is told:
  the three transfers leave the string ``Hello,man!'' three times at the start of the DMA
  page, the rest of the page as it was, and the string at 0x40000 of the card and nowhere else.
\<close>

theorem dma_transfers:
  assumes "engine_ok eng" and "my_probe_11 st e = Some (st1, tr, Inr p)"
    and "fold (dma_do eng (ucast (d_phys e))) (dma_acts tr r) (h, c) = (h1, c1)"
  shows "page_of (ucast (d_phys e)) h1 =
      hello @ hello @ hello @ drop 30 (page_of (ucast (d_phys e)) h) \<and>
    c1 = (\<lambda>a. if a - 0x40000 < 10 then hello ! unat (a - 0x40000) else c a)"
  unfolding my_probe_11_memory [OF assms] page_filled
  by (simp add: hello_at_def fun_eq_iff)

theorem dma_transfers_witness:
  "\<exists>tr h1 c1. my_probe_11 dma_start dma_good_env =
      Some (\<lparr>task = 0x1000, dma_virt_addr = 0x5000\<rparr>, tr, Inr dma_good_card) \<and>
    fold (dma_do engine_copy 0x7000) (dma_acts tr (0, 0, 0)) (\<lambda>_. 0, \<lambda>_. 0xff) = (h1, c1) \<and>
    take 30 (page_of 0x7000 h1) = hello @ hello @ hello"
proof -
  obtain tr where tr: "my_probe_11 dma_start dma_good_env =
      Some (\<lparr>task = 0x1000, dma_virt_addr = 0x5000\<rparr>, tr, Inr dma_good_card)"
    using dma_good_probe by blast
  have ph: "ucast (d_phys dma_good_env) = (0x7000 :: u32)" by (simp add: dma_good_env_def)
  obtain h1 c1 where m: "fold (dma_do engine_copy 0x7000) (dma_acts tr (0, 0, 0))
      (\<lambda>_. 0, \<lambda>_. 0xff) = (h1, c1)" by (cases "fold (dma_do engine_copy 0x7000)
        (dma_acts tr (0, 0, 0)) (\<lambda>_. 0, \<lambda>_. 0xff)")
  from dma_transfers [OF engine_ok_copy tr, unfolded ph, OF m]
  have "page_of 0x7000 h1 = (hello @ hello @ hello) @ drop 30 (page_of 0x7000 (\<lambda>_. 0))" by simp
  then have "take 30 (page_of 0x7000 h1) = hello @ hello @ hello"
    by (simp only:) (simp add: hello_def)
  with tr m show ?thesis by blast
qed



text \<open>The steps before the first transfer, one of which fails.\<close>

definition dma_fails_early :: "dma_env \<Rightarrow> bool" where
  "dma_fails_early e \<longleftrightarrow> d_task e = NULL \<or> d_enable e \<noteq> 0 \<or> d_mask e \<noteq> 0 \<or> d_region e \<noteq> 0 \<or>
     d_virt e = NULL \<or> d_help e = NULL \<or> d_dma e = NULL"

text \<open>
  C22: A probe comes back exactly if it fails before the first transfer or the card clears the
  start bit of both polled transfers at some read; otherwise it polls for ever.
\<close>

theorem dma_probe_returns:
  "(\<exists>x. my_probe_11 st e = Some x) \<longleftrightarrow>
     dma_fails_early e \<or> (\<exists>k. d_poll1 e k AND 1 = 0) \<and> (\<exists>k. d_poll2 e k AND 1 = 0)"
proof -
  have w: "wait_cmd rd cmd 0 = None \<longleftrightarrow> \<not> (\<exists>k. rd k AND 1 = 0)" if "cmd AND 1 \<noteq> 0" for rd cmd
    unfolding wait_cmd_result [OF that] by simp
  have "wait_cmd (d_poll1 e) cmd_to_card 0 = None \<longleftrightarrow> \<not> (\<exists>k. d_poll1 e k AND 1 = 0)"
    and "wait_cmd (d_poll2 e) cmd_from_card 0 = None \<longleftrightarrow> \<not> (\<exists>k. d_poll2 e k AND 1 = 0)"
    by (rule w; simp add: cmd_bits)+
  then show ?thesis
    by (cases "wait_cmd (d_poll1 e) cmd_to_card 0"; cases "wait_cmd (d_poll2 e) cmd_from_card 0")
      (simp_all add: my_probe_11_def dma_fails_early_def Let_def)
qed

text \<open>
  An interrupt is acknowledged with the value the register had. A DMA completion that
  arrives together with another interrupt is acknowledged like any other, but the tasklet is
  not scheduled and the command register not written: the completion is lost.
\<close>

theorem dma_completion_lost:
  assumes "interrupt AND 0x100 \<noteq> 0" and "interrupt \<noteq> 0x100"
  shows "my_handler_11 (tsk, p) (interrupt, cmd) =
    (IRQ_HANDLED, [Readl (p_virt p) REG_RAISED, Writel interrupt (p_virt p) REG_ACK])"
  using assms by (auto simp: my_handler_11_def Let_def)

theorem dma_completion_lost_witness:
  "my_handler_11 (0x1000, dma_good_card) (0x1100, 0x28) =
    (IRQ_HANDLED, [Readl 0x8000 REG_RAISED, Writel 0x1100 0x8000 REG_ACK])"
  using dma_completion_lost [where interrupt = "0x1100" and p = dma_good_card]
  by (simp add: dma_good_card_def)

text \<open>
  C25: Removal frees the tasklet before it frees the interrupt. A completion interrupt that
  arrives in between makes the handler initialise a tasklet through a NULL pointer, which is
  not allowed; the same interrupt before the removal is.
\<close>

theorem dma_remove_race:
  assumes "dma_live st p H"
  shows "kres_run (take 2 (snd (my_remove_11 st p)) @
      snd (my_handler_11 (task (fst (my_remove_11 st p)), p) (0x100, cmd))) H = None \<and>
    kres_run (snd (my_handler_11 (task st, p) (0x100, cmd)) @ snd (my_remove_11 st p)) H = Some {#}"
proof -
  from dma_handle_live [OF assms, of "Dma_irq (0x100, cmd)"] obtain H1
    where "kres_run (snd (my_handler_11 (task st, p) (0x100, cmd))) H = Some H1" "dma_live st p H1"
    by auto
  then have after: "kres_run (snd (my_handler_11 (task st, p) (0x100, cmd)) @
      snd (my_remove_11 st p)) H = Some {#}"
    by (simp add: kres_run_append my_remove_11_clean)
  have "kres_step (Tasklet_kill (task st)) H = Some (dma_res (task st) p)" "task st \<noteq> NULL"
    "p_self p \<noteq> NULL" "task st \<noteq> p_self p"
    using assms by (auto simp: dma_live_def dma_res_def)
  then have "kres_run (take 2 (snd (my_remove_11 st p)) @
      snd (my_handler_11 (task (fst (my_remove_11 st p)), p) (0x100, cmd))) H =
    kres_run (snd (my_handler_11 (NULL, p) (0x100, cmd))) (dma_res (task st) p - {#Mem (task st)#})"
    by (simp add: my_remove_11_def numeral_2_eq_2 give_back_def dma_res_def)
  also have "\<dots> = None"
    using \<open>p_self p \<noteq> NULL\<close> by (simp add: my_handler_11_def dma_res_def Let_def)
  finally show ?thesis using after by blast
qed

theorem dma_remove_race_witness:
  "kres_run (take 2 (snd (my_remove_11 \<lparr>task = 0x1000, dma_virt_addr = 0x5000\<rparr> dma_good_card)) @
     snd (my_handler_11 (NULL, dma_good_card) (0x100, 0x28))) (dma_res 0x1000 dma_good_card) = None"
proof -
  let ?st = "\<lparr>task = 0x1000, dma_virt_addr = 0x5000\<rparr>"
  have l: "dma_live ?st dma_good_card (dma_res 0x1000 dma_good_card)"
    by (simp add: dma_live_def dma_good_card_def)
  have "task (fst (my_remove_11 ?st dma_good_card)) = NULL" by (simp add: my_remove_11_def)
  with dma_remove_race [OF l, of "0x28"] show ?thesis by simp
qed

text \<open>
  C26: A mapping is handed out only for at most one page, read-only and with a page there, at
  the frame of the DMA page; but removal leaves the pointer as it was, so after it the frame
  of the freed page is still handed out.
\<close>

theorem dma_mmap_after_remove:
  assumes "my_probe_11 st e = Some (st1, tr, Inr p)"
  shows "(\<forall>st vma. my_mmap_11 v2p remap st vma = Inr () \<longleftrightarrow>
      vm_end vma - vm_start vma \<le> PAGE_SIZE \<and> vm_flags vma AND (VM_WRITE OR VM_READ) = VM_READ \<and>
      dma_virt_addr st \<noteq> NULL \<and>
      remap (vm_start vma) (drop_bit 12 (v2p (dma_virt_addr st))) PAGE_SIZE = Inr ()) \<and>
    my_mmap_11 v2p remap (fst (my_remove_11 st1 p)) = my_mmap_11 v2p remap st1 \<and>
    dma_virt_addr st1 \<noteq> NULL \<and> Dma_free (dma_virt_addr st1) \<in> set (snd (my_remove_11 st1 p))"
proof -
  have "dma_virt_addr st1 = p_dma_virt p" "p_dma_virt p \<noteq> NULL"
    using assms by (auto simp: my_probe_11_def Let_def split: if_splits option.splits)
  moreover have "dma_virt_addr (fst (my_remove_11 st1 p)) = dma_virt_addr st1"
    by (simp add: my_remove_11_def)
  ultimately show ?thesis
    by (auto simp: my_mmap_11_def fun_eq_iff not_less my_remove_11_def)
qed

theorem dma_mmap_after_remove_witness:
  "my_mmap_11 id (\<lambda>start pfn size. Inr ())
     (fst (my_remove_11 \<lparr>task = 0x1000, dma_virt_addr = 0x5000\<rparr> dma_good_card))
     \<lparr>vm_start = 0x4000, vm_end = 0x5000, vm_pgoff = 0, vm_flags = 1\<rparr> = Inr ()"
proof -
  obtain tr where tr: "my_probe_11 dma_start dma_good_env =
      Some (\<lparr>task = 0x1000, dma_virt_addr = 0x5000\<rparr>, tr, Inr dma_good_card)"
    using dma_good_probe by blast
  from dma_mmap_after_remove [OF tr, of id "\<lambda>start pfn size. Inr ()"] show ?thesis
    by (simp add: PAGE_SIZE_def VM_READ_def VM_WRITE_def my_remove_11_def)
qed

end
