(* ===== verification/Dma_System.thy ===== *)
theory Dma_System
  imports Dma_Card
begin

text \<open>
  Two cards bound to the DMA driver at once. The module has one tasklet pointer and one pointer
  to a DMA page for all its cards (\<open>task\<close> and \<open>dma_virt_addr\<close> in \<open>11/homework/pb173.c\<close>): the
  second probe overwrites what the first stored.
\<close>

section \<open>A probe from any state of the accounting\<close>

lemma my_probe_11_globals:
  assumes "my_probe_11 st e = Some (st1, tr, Inr p)"
  shows "st1 = \<lparr>task = d_task e, dma_virt_addr = d_dma e\<rparr>" and "d_task e \<noteq> NULL"
    and "p_self p = d_help e" and "p_self p \<noteq> NULL" and "p_dma_virt p = d_dma e"
  using assms by (auto simp: my_probe_11_def Let_def split: if_splits option.splits)

lemma my_probe_11_from:
  assumes "my_probe_11 st e = Some (st1, tr, Inr p)" and "Armed (d_help e) \<notin># H"
  shows "kres_run tr H = Some (dma_res (d_task e) p + H)"
proof -
  from assms(1) have c: "d_task e \<noteq> NULL" "d_enable e = 0" "d_mask e = 0" "d_region e = 0"
    "d_virt e \<noteq> NULL" "d_help e \<noteq> NULL" "d_dma e \<noteq> NULL" "d_irq e = 0"
    by (auto simp: my_probe_11_def Let_def split: if_splits option.splits)
  with assms show ?thesis
    by (auto simp: my_probe_11_def dma_trace dma_res_def split: option.splits)
qed

section \<open>The second card takes the first one's tasklet\<close>

text \<open>The blocks of two probes that are bound at the same time are different.\<close>

definition dma_apart :: "dma_env \<Rightarrow> dma_env \<Rightarrow> bool" where
  "dma_apart e1 e2 \<longleftrightarrow>
     distinct [d_task e1, d_help e1, d_task e2, d_help e2] \<and> d_virt e1 \<noteq> d_virt e2 \<and>
     d_dma e1 \<noteq> d_dma e2 \<and> d_card e1 \<noteq> d_card e2"

lemma completion_run:
  "Mapped (p_virt p) \<in># H \<Longrightarrow> Mem tsk \<in># H \<Longrightarrow> \<exists>H1.
   kres_run (snd (my_handler_11 (tsk, p) (0x100, cmd))) H = Some H1"
  by (simp add: my_handler_11_def Let_def)

lemma completion_not_allowed:
  "Mem tsk \<notin># H \<Longrightarrow> kres_run (snd (my_handler_11 (tsk, p) (0x100, cmd))) H = None"
  by (simp add: my_handler_11_def Let_def)

lemma remove_frees_task:
  assumes "task st \<noteq> NULL" and "Mem (task st) \<in># H" and "Irq (task st) \<notin># H"
    and "Armed (task st) \<notin># H" and "Queued (task st) \<notin># H"
  shows "kres_run (take 2 (snd (my_remove_11 st p))) H = Some (H - {#Mem (task st)#})"
  using assms by (simp add: my_remove_11_def numeral_2_eq_2 give_back_def diff_single_trivial)

section \<open>Properties\<close>

text \<open>
  C23: With two cards bound, a completion interrupt of the first is fine until the second card is
  removed; from then on it makes the handler use a tasklet through NULL, although the first
  card is still bound. And neither that removal nor the removal of the first card after it frees
  the memory of the first tasklet.
\<close>

theorem dma_two_cards:
  assumes "dma_apart e1 e2" and "my_probe_11 st e1 = Some (st1, tr1, Inr p1)"
    and "my_probe_11 st1 e2 = Some (st2, tr2, Inr p2)"
  shows "(\<exists>H. kres_run (tr1 @ tr2 @ snd (my_handler_11 (task st2, p1) (0x100, cmd))) {#} = Some H) \<and>
    (let st3 = fst (my_remove_11 st2 p2)
     in kres_run (tr1 @ tr2 @ take 2 (snd (my_remove_11 st2 p2)) @
          snd (my_handler_11 (task st3, p1) (0x100, cmd))) {#} = None \<and>
        Kfree (d_task e1) \<notin> set (snd (my_remove_11 st2 p2)) \<union> set (snd (my_remove_11 st3 p1)))"
proof -
  note g1 = my_probe_11_globals [OF assms(2)] and g2 = my_probe_11_globals [OF assms(3)]
  have ne: "d_task e1 \<noteq> d_task e2" "d_help e1 \<noteq> d_task e2" "d_help e2 \<noteq> d_task e2"
    "d_task e1 \<noteq> d_help e1" "d_task e1 \<noteq> d_help e2" "d_help e1 \<noteq> d_help e2"
    using assms(1) by (auto simp: dma_apart_def)
  let ?H1 = "dma_res (d_task e1) p1" and ?H = "dma_res (d_task e2) p2 + dma_res (d_task e1) p1"
  have r1: "kres_run tr1 {#} = Some ?H1" using my_probe_11_from [OF assms(2), of "{#}"] by simp
  have "Armed (d_help e2) \<notin># ?H1" using ne g1 by (auto simp: dma_res_def)
  from my_probe_11_from [OF assms(3) this] r1
  have run: "kres_run (tr1 @ tr2 @ xs) {#} = kres_run xs ?H" for xs
    by (simp add: kres_run_append)
  have t2: "task st2 = d_task e2" using g2(1) by simp
  have "\<exists>H. kres_run (tr1 @ tr2 @ snd (my_handler_11 (task st2, p1) (0x100, cmd))) {#} = Some H"
    unfolding run t2 by (rule completion_run) (simp_all add: dma_res_def)
  moreover have "kres_run (take 2 (snd (my_remove_11 st2 p2))) ?H = Some (?H - {#Mem (task st2)#})"
    using ne g1 g2 by (intro remove_frees_task) (auto simp: dma_res_def)
  moreover have "Mem NULL \<notin># ?H" using g1 g2 by (auto simp: dma_res_def)
  then have "Mem NULL \<notin># ?H - {#Mem (task st2)#}" by (meson in_diffD)
  moreover have "task (fst (my_remove_11 st2 p2)) = NULL" by (simp add: my_remove_11_def)
  moreover have "Kfree (d_task e1) \<notin> set (snd (my_remove_11 st2 p2)) \<union>
      set (snd (my_remove_11 (fst (my_remove_11 st2 p2)) p1))"
    using ne g1 g2 by (auto simp: my_remove_11_def)
  ultimately show ?thesis
    unfolding run Let_def by (simp add: kres_run_append completion_not_allowed)
qed

theorem dma_two_cards_witness:
  "\<exists>st1 tr1 p1 st2 tr2 p2. my_probe_11 dma_start dma_good_env = Some (st1, tr1, Inr p1) \<and>
     my_probe_11 st1 (dma_good_env\<lparr>d_card := 4, d_task := 0x1100, d_virt := 0x9000, d_help := 0x2100,
       d_dma := 0x6000\<rparr>) = Some (st2, tr2, Inr p2) \<and>
     kres_run (tr1 @ tr2 @ take 2 (snd (my_remove_11 st2 p2)) @
       snd (my_handler_11 (NULL, p1) (0x100, 0))) {#} = None"
proof -
  let ?e = "dma_good_env\<lparr>d_card := 4, d_task := 0x1100, d_virt := 0x9000, d_help := 0x2100,
    d_dma := 0x6000\<rparr>"
  have a: "dma_apart dma_good_env ?e" by (simp add: dma_apart_def dma_good_env_def)
  obtain tr1 where p1: "my_probe_11 dma_start dma_good_env =
      Some (\<lparr>task = 0x1000, dma_virt_addr = 0x5000\<rparr>, tr1, Inr dma_good_card)"
    using dma_good_probe by blast
  have w: "wait_cmd (d_poll1 ?e) cmd_to_card 0 = Some 3"
    "wait_cmd (d_poll2 ?e) cmd_from_card 0 = Some 1"
    using dma_good_waits by (simp_all add: dma_good_env_def)
  obtain st2 tr2 p2 where p2: "my_probe_11 \<lparr>task = 0x1000, dma_virt_addr = 0x5000\<rparr> ?e =
      Some (st2, tr2, Inr p2)"
    using w by (simp add: my_probe_11_def Let_def dma_good_env_def)
  have "task (fst (my_remove_11 st2 p2)) = NULL" by (simp add: my_remove_11_def)
  with dma_two_cards [OF a p1 p2, of 0] have "kres_run (tr1 @ tr2 @ take 2 (snd (my_remove_11 st2 p2)) @
       snd (my_handler_11 (NULL, dma_good_card) (0x100, 0))) {#} = None" by (simp add: Let_def)
  with p1 p2 show ?thesis by blast
qed

end
