(* ===== verification/Dma_Preempt.thy ===== *)
theory Dma_Preempt
  imports Preempt Dma_Card
begin

text \<open>
  The DMA driver of homework 11 with interrupts, timer ticks and the tasklet between the calls of
  its probe and its removal. Its interrupt handler does change the resources: it schedules the
  tasklet. The probe is not disturbed by that, the removal is.
\<close>

section \<open>Callbacks that come and go with one resource\<close>

text \<open>
  \<open>x\<close> is a resource the callbacks may add and take away; everything else they leave as it is. A
  call that does not look at \<open>x\<close> does the same with and without it.
\<close>

definition stable_upto ::
  "(kres \<Rightarrow> 'ev \<Rightarrow> kcall list option) \<Rightarrow> kres \<Rightarrow> kres multiset \<Rightarrow> bool" where
  "stable_upto cb x H \<longleftrightarrow> (\<forall>G r ev h. (G = H \<or> G = add_mset x H) \<longrightarrow> r \<in># G \<longrightarrow> cb r ev = Some h \<longrightarrow>
     kres_run h (fired r G) = Some H \<or> kres_run h (fired r G) = Some (add_mset x H))"

definition unaware :: "kres \<Rightarrow> kcall \<Rightarrow> bool" where
  "unaware x c \<longleftrightarrow> (\<forall>H H1. kres_step c H = Some H1 \<longrightarrow>
     kres_step c (add_mset x H) = Some (add_mset x H1))"

fun noisy_run ::
  "(kres \<Rightarrow> 'ev \<Rightarrow> kcall list option) \<Rightarrow> kres \<Rightarrow> kcall list \<Rightarrow> kres multiset \<Rightarrow> bool" where
  "noisy_run cb x [] H = stable_upto cb x H"
| "noisy_run cb x (c # cs) H = (stable_upto cb x H \<and> unaware x c \<and>
     (case kres_step c H of None \<Rightarrow> False | Some H1 \<Rightarrow> noisy_run cb x cs H1))"

lemma noisy_run_stable: "noisy_run cb x cs H \<Longrightarrow> stable_upto cb x H"
  by (cases cs) auto

lemma noisy_run_safe:
  assumes "noisy_run cb x cs H" and "G = H \<or> G = add_mset x H"
  shows "safe_now cb cs G"
proof -
  have "kres_run h (fired r G) \<noteq> None" if "r \<in># G" "cb r ev = Some h" for r ev h
    using noisy_run_stable [OF assms(1)] assms(2) that by (fastforce simp: stable_upto_def)
  moreover have "case cs of [] \<Rightarrow> True | c # _ \<Rightarrow> kres_step c G \<noteq> None"
    using assms by (cases cs) (auto simp: unaware_def split: option.splits)
  ultimately show ?thesis by (simp add: safe_now_def)
qed

lemma preempted_noisy:
  assumes "preempted cb cs0 H0 cs H" and "noisy_run cb x cs0 H0"
  shows "\<exists>G. noisy_run cb x cs G \<and> (H = G \<or> H = add_mset x G)"
  using assms
proof (induction rule: preempted.induct)
  case pre_start
  then show ?case by blast
next
  case (pre_call c cs H H1)
  then obtain G where G: "noisy_run cb x (c # cs) G" "H = G \<or> H = add_mset x G" by blast
  then obtain G1 where "kres_step c G = Some G1" "noisy_run cb x cs G1" "unaware x c"
    by (auto split: option.splits)
  with G(2) pre_call.hyps(2) show ?case by (auto simp: unaware_def)
next
  case (pre_fire cs H r ev h H1)
  then obtain G where G: "noisy_run cb x cs G" "H = G \<or> H = add_mset x G" by blast
  then have "H1 = G \<or> H1 = add_mset x G"
    using noisy_run_stable [OF G(1)] pre_fire.hyps by (fastforce simp: stable_upto_def)
  with G(1) show ?case by blast
qed

lemma noisy_run_reads:
  assumes "Mapped b \<in># H" and "stable_upto cb x H"
  shows "noisy_run cb x (replicate n (Readl b off) @ cs) H = noisy_run cb x cs H"
  using assms by (induction n) (auto simp: unaware_def dest: noisy_run_stable)

section \<open>The callbacks of the DMA driver\<close>

text \<open>\<open>tsk\<close> is the value of the global pointer: it does not change until the removal clears it.\<close>

fun dma_cb :: "addr \<Rightarrow> dma_card \<Rightarrow> kres \<Rightarrow> dma_event \<Rightarrow> kcall list option" where
  "dma_cb tsk p (Irq q) (Dma_irq h) = (if q = p_self p then Some (snd (my_handler_11 (tsk, p) h)) else None)"
| "dma_cb tsk p (Armed q) Dma_timer = (if q = p_self p then Some (raise_intr_11 p) else None)"
| "dma_cb tsk p (Queued t) (Dma_tasklet page) =
     (if t = tsk then Some (tasklet_fn page (p_dma_virt p + 0x14) p) else None)"
| "dma_cb tsk p _ _ = None"

lemma dma_cb_Some:
  "dma_cb tsk p r ev = Some h \<longleftrightarrow>
     (\<exists>x. r = Irq (p_self p) \<and> ev = Dma_irq x \<and> h = snd (my_handler_11 (tsk, p) x)) \<or>
     (r = Armed (p_self p) \<and> ev = Dma_timer \<and> h = raise_intr_11 p) \<or>
     (\<exists>page. r = Queued tsk \<and> ev = Dma_tasklet page \<and> h = tasklet_fn page (p_dma_virt p + 0x14) p)"
  by (cases "(tsk, p, r, ev)" rule: dma_cb.cases) auto

lemma armed_again:
  "Armed t \<in># H \<Longrightarrow> Multiset.count H (Armed t) \<le> 1 \<Longrightarrow> Mapped v \<in># H \<Longrightarrow>
   kres_run [Writel a v b, Mod_timer t] (H - {#Armed t#}) = Some H"
proof -
  assume a: "Armed t \<in># H" "Multiset.count H (Armed t) \<le> 1" "Mapped v \<in># H"
  then have "Armed t \<notin># H - {#Armed t#}"
    by (simp add: count_eq_zero_iff [symmetric] del: count_eq_zero_iff)
  moreover have "Mapped v \<in># H - {#Armed t#}" using a(3) by (simp add: in_diff_count count_eq_zero_iff)
  ultimately show ?thesis using a(1) by simp
qed

lemma dma_stable:
  assumes "Irq (p_self p) \<in># H \<or> Armed (p_self p) \<in># H \<longrightarrow> Mapped (p_virt p) \<in># H \<and> Mem tsk \<in># H"
    and "Multiset.count H (Armed (p_self p)) \<le> 1" and "Queued tsk \<notin># H"
  shows "stable_upto (dma_cb tsk p) (Queued tsk) H"
  unfolding stable_upto_def
proof (intro allI impI)
  fix G r ev h
  assume G: "G = H \<or> G = add_mset (Queued tsk) H" and r: "r \<in># G" and "dma_cb tsk p r ev = Some h"
  then consider x where "r = Irq (p_self p)" "h = snd (my_handler_11 (tsk, p) x)"
    | "r = Armed (p_self p)" "h = raise_intr_11 p"
    | page where "r = Queued tsk" "h = tasklet_fn page (p_dma_virt p + 0x14) p"
    by (auto simp: dma_cb_Some)
  then show "kres_run h (fired r G) = Some H \<or> kres_run h (fired r G) = Some (add_mset (Queued tsk) H)"
  proof cases
    case 1
    with r G have "Irq (p_self p) \<in># H" by auto
    with 1 G assms(1,3) show ?thesis
      by (cases x) (auto simp: my_handler_11_def Let_def)
  next
    case 2
    with r G have "Armed (p_self p) \<in># G" "Mapped (p_virt p) \<in># G" "Multiset.count G (Armed (p_self p)) \<le> 1"
      using assms(1,2) by auto
    from armed_again [OF this(1,3,2)] 2 G show ?thesis by (auto simp: raise_intr_11_def)
  next
    case 3
    with r G assms(3) show ?thesis by (auto simp: tasklet_fn_def)
  qed
qed

lemma unaware_probe:
  "unaware (Queued t) (Kmalloc a)" "unaware (Queued t) (Pci_enable_device d r)"
  "unaware (Queued t) (Pci_set_dma_mask d r)" "unaware (Queued t) (Pci_set_master d)"
  "unaware (Queued t) (Pci_request_regions d r)" "unaware (Queued t) (Ioremap a)"
  "unaware (Queued t) (Dma_alloc a)" "unaware (Queued t) (Dma_store a n bs)"
  "unaware (Queued t) (Writel v a off)" "unaware (Queued t) (Readl a off)"
  "unaware (Queued t) (Setup_timer a)" "unaware (Queued t) (Set_drvdata d a)"
  "unaware (Queued t) (Request_irq a r)" "unaware (Queued t) (Mod_timer a)"
  by (auto simp: unaware_def add_mset_commute)

lemma dma_probe_noisy:
  assumes "my_probe_11 st e = Some (st1, tr, Inr p)"
  shows "noisy_run (dma_cb (task st1) p) (Queued (task st1)) tr {#}"
proof -
  from assms have c: "d_task e \<noteq> NULL" "d_enable e = 0" "d_mask e = 0" "d_region e = 0"
    "d_virt e \<noteq> NULL" "d_help e \<noteq> NULL" "d_dma e \<noteq> NULL" "d_irq e = 0"
    by (auto simp: my_probe_11_def Let_def split: if_splits option.splits)
  with assms show ?thesis
    by (auto simp: my_probe_11_def Let_def unaware_probe dma_stable noisy_run_reads transfer_11_def
        split: option.splits)
qed

section \<open>Properties\<close>

text \<open>
  C24: Completion and timer interrupts, ticks and runs of the tasklet may come between any two calls
  of a probe that binds the card: whatever comes, neither the driver's next call nor a callback is
  one the kernel does not allow. The removal is not like that: a completion between the call that
  kills the tasklet and the one that frees it schedules the tasklet again, and what is freed is
  about to run.
\<close>

theorem dma_preempted:
  assumes "my_probe_11 st e = Some (st1, tr, Inr p)" and "dma_env_ok e"
  shows "(\<forall>cs H. preempted (dma_cb (task st1) p) tr {#} cs H \<longrightarrow> safe_now (dma_cb (task st1) p) cs H) \<and>
    (\<exists>H. preempted (dma_cb (task st1) p) (tr @ snd (my_remove_11 st1 p)) {#}
        (tl (snd (my_remove_11 st1 p))) H \<and>
      Queued (task st1) \<in># H \<and> hd (tl (snd (my_remove_11 st1 p))) = Kfree (task st1) \<and>
      \<not> safe_now (dma_cb (task st1) p) (tl (snd (my_remove_11 st1 p))) H)"
proof
  let ?t = "task st1" and ?cb = "dma_cb (task st1) p"
  show "\<forall>cs H. preempted ?cb tr {#} cs H \<longrightarrow> safe_now ?cb cs H"
    using preempted_noisy [OF _ dma_probe_noisy [OF assms(1)]] noisy_run_safe by blast
  let ?H = "dma_res ?t p"
  from my_probe_11_bound [OF assms(2,1)] have run: "kres_run tr {#} = Some ?H"
    and t: "?t \<noteq> NULL" "?t \<noteq> p_self p" by (auto simp: dma_live_def)
  define cs where "cs = tl (snd (my_remove_11 st1 p))"
  have rem: "snd (my_remove_11 st1 p) = Tasklet_kill ?t # cs" and hd: "hd cs = Kfree ?t" "cs \<noteq> []"
    using t(1) by (simp_all add: my_remove_11_def cs_def)
  have "preempted ?cb (tr @ Tasklet_kill ?t # cs) {#} (Tasklet_kill ?t # cs) ?H"
    by (rule preempted_calls [OF refl run])
  then have "preempted ?cb (tr @ Tasklet_kill ?t # cs) {#} cs ?H"
    by (rule pre_call) (simp add: dma_res_def)
  then have "preempted ?cb (tr @ Tasklet_kill ?t # cs) {#} cs (add_mset (Queued ?t) ?H)"
    by (rule pre_fire [where r = "Irq (p_self p)" and ev = "Dma_irq (0x100, 0)"
          and h = "snd (my_handler_11 (?t, p) (0x100, 0))"])
      (simp_all add: dma_res_def my_handler_11_def Let_def)
  moreover have "\<not> safe_now ?cb cs (add_mset (Queued ?t) ?H)"
    using hd t(1) by (cases cs) (simp_all add: safe_now_def)
  ultimately show "\<exists>H. preempted ?cb (tr @ snd (my_remove_11 st1 p)) {#}
        (tl (snd (my_remove_11 st1 p))) H \<and>
      Queued ?t \<in># H \<and> hd (tl (snd (my_remove_11 st1 p))) = Kfree ?t \<and>
      \<not> safe_now ?cb (tl (snd (my_remove_11 st1 p))) H"
    using hd(1) unfolding rem by (intro exI [of _ "add_mset (Queued ?t) ?H"]) simp
qed

theorem dma_preempted_witness:
  "\<exists>tr H. my_probe_11 dma_start dma_good_env =
      Some (\<lparr>task = 0x1000, dma_virt_addr = 0x5000\<rparr>, tr, Inr dma_good_card) \<and>
    Queued 0x1000 \<in># H \<and>
    preempted (dma_cb 0x1000 dma_good_card)
      (tr @ snd (my_remove_11 \<lparr>task = 0x1000, dma_virt_addr = 0x5000\<rparr> dma_good_card)) {#}
      (tl (snd (my_remove_11 \<lparr>task = 0x1000, dma_virt_addr = 0x5000\<rparr> dma_good_card))) H"
proof -
  obtain tr where tr: "my_probe_11 dma_start dma_good_env =
      Some (\<lparr>task = 0x1000, dma_virt_addr = 0x5000\<rparr>, tr, Inr dma_good_card)"
    using dma_good_probe by blast
  from dma_preempted [OF tr dma_good_ok] tr show ?thesis by auto
qed

end
