(* ===== verification/Event_Device.thy ===== *)
theory Event_Device
  imports Module_Files
begin

text \<open>
  The string device of \<open>11/events/pb173.c\<close>: ten bytes under a mutex, written from the start on
  and read as a C string.
\<close>

text \<open>\<open>str\<close> is the array; what a write returns and the array after it.\<close>

definition my_write_ev ::
  "copy_from_user \<Rightarrow> addr \<Rightarrow> u64 \<Rightarrow> byte list \<Rightarrow> lockcall list \<times> (errno + u64) \<times> byte list" where
  "my_write_ev cfu buf cnt str =
     (let (nc, bs) = cfu buf (min (unat cnt) (length str - 1));
          ret = (if nc \<noteq> 0 then Inl EFAULT else Inr cnt);
          str1 = blit str 0 bs; str2 = str1[length str - 1 := 0]
      in ([Lock ''my_lock'', Unlock ''my_lock''], ret, str2))"

text \<open>\<open>strlen\<close> of an array without a zero reads past its end.\<close>

definition my_read_ev ::
  "simple_read \<Rightarrow> addr \<Rightarrow> u64 \<Rightarrow> u64 \<Rightarrow> byte list \<Rightarrow>
   (lockcall list \<times> (errno + u64) \<times> u64 \<times> user_writes) exec" where
  "my_read_ev srfb buf cnt off str =
     (if 0 \<notin> set str then Fault
      else let strlen = length (cstr str)
           in Ret ([Lock ''my_lock'', Unlock ''my_lock''], srfb buf cnt off (take strlen str)))"

definition my_init_ev :: "int \<Rightarrow> kcall list \<times> int" where
  "my_init_ev r = ([Misc_register 0 r], r)"

definition my_exit_ev :: "kcall list" where
  "my_exit_ev = [Misc_deregister 0]"

section \<open>The array stays a string\<close>

definition str_ok :: "byte list \<Rightarrow> bool" where
  "str_ok str \<longleftrightarrow> length str = 10 \<and> str ! 9 = 0"

lemma take_cstr: "take (length (cstr bs)) bs = cstr bs"
  by (simp add: cstr_def takeWhile_eq_take [symmetric])

lemma cstr_length: "i < length bs \<Longrightarrow> bs ! i = 0 \<Longrightarrow> length (cstr bs) \<le> i"
proof (rule ccontr)
  assume i: "bs ! i = 0" and "\<not> length (cstr bs) \<le> i"
  then have l: "i < length (takeWhile (\<lambda>b. b \<noteq> 0) bs)" by (simp add: cstr_def)
  from nth_mem [OF l] have "takeWhile (\<lambda>b. b \<noteq> 0) bs ! i \<noteq> 0" by (blast dest: set_takeWhileD)
  with i show False by (simp add: takeWhile_nth [OF l])
qed

lemma str_ok_cstr:
  assumes "str_ok str"
  shows "0 \<in> set str" and "length (cstr str) \<le> 9"
proof -
  from assms show "length (cstr str) \<le> 9" using cstr_length [of 9 str] by (simp add: str_ok_def)
  from assms have "9 < length str" "str ! 9 = 0" by (simp_all add: str_ok_def)
  then show "0 \<in> set str" by (metis nth_mem)
qed

lemma my_write_ev_effect:
  assumes "cfu_ok um cfu" and "str_ok str" and "n = min (unat cnt) 9"
  shows "my_write_ev cfu buf cnt str =
    ([Lock ''my_lock'', Unlock ''my_lock''],
     if fst (cfu buf n) = 0 then Inr cnt else Inl EFAULT, snd (cfu buf n) @ drop n str)"
    and "length (snd (cfu buf n)) = n"
proof -
  obtain nc bs where c: "cfu buf n = (nc, bs)" by (cases "cfu buf n")
  then have l: "length bs = n" using cfu_ok_length [OF assms(1)] by blast
  then show "length (snd (cfu buf n)) = n" by (simp add: c)
  have s: "length str = 10" "str ! 9 = 0" "n \<le> 9" using assms by (simp_all add: str_ok_def)
  have "(bs @ drop n str)[9 := 0] = bs @ drop n str"
    using s l by (intro list_update_same_conv [THEN iffD2]) (simp_all add: nth_append)
  then show "my_write_ev cfu buf cnt str = ([Lock ''my_lock'', Unlock ''my_lock''],
      if fst (cfu buf n) = 0 then Inr cnt else Inl EFAULT, snd (cfu buf n) @ drop n str)"
    using c l s assms(3) by (simp add: my_write_ev_def blit_def)
qed

lemma my_write_ev_ok:
  "cfu_ok um cfu \<Longrightarrow> str_ok str \<Longrightarrow> str_ok (snd (snd (my_write_ev cfu buf cnt str)))"
  using my_write_ev_effect [of um cfu str "min (unat cnt) 9" cnt buf]
  by (simp add: str_ok_def nth_append)

lemma writes_ok:
  "cfu_ok um cfu \<Longrightarrow> str_ok str \<Longrightarrow>
   str_ok (fold (\<lambda>(buf, cnt) s. snd (snd (my_write_ev cfu buf cnt s))) ws str)"
  by (induction ws arbitrary: str) (auto simp: my_write_ev_ok)

section \<open>The module\<close>

text \<open>
  The handlers as the file system calls them, with the mutex and what may sleep; the globals are
  the array \<open>str\<close>.
\<close>

definition h_read_ev :: "env \<Rightarrow> addr \<Rightarrow> u64 \<Rightarrow> u64 \<Rightarrow> (byte list, (errno + int) \<times> u64) handler" where
  "h_read_ev e buf cnt off = do {
     mutex_lock ''my_lock'';
     str \<leftarrow> load id;
     r \<leftarrow> (if 0 \<notin> set str then do { wild; State_Monad.return (Inr 0, off) }
          else buf_out e buf cnt off (take (length (cstr str)) str));
     mutex_unlock ''my_lock'';
     State_Monad.return r }"

definition h_write_ev :: "env \<Rightarrow> addr \<Rightarrow> u64 \<Rightarrow> u64 \<Rightarrow> (byte list, (errno + int) \<times> u64) handler" where
  "h_write_ev e buf cnt off = do {
     mutex_lock ''my_lock'';
     str \<leftarrow> load id;
     (nc, bs) \<leftarrow> copy_in e buf (min (unat cnt) (length str - 1));
     store (\<lambda>str. blit str 0 bs);
     store (\<lambda>str. str[length str - 1 := 0]);
     mutex_unlock ''my_lock'';
     State_Monad.return (if nc \<noteq> 0 then Inl EFAULT else Inr (sint cnt), off) }"

definition my_fops_ev :: "byte list file_ops" where
  "my_fops_ev = no_ops\<lparr>fop_read := Some h_read_ev, fop_write := Some h_write_ev\<rparr>"

definition fops_ev :: "nat \<Rightarrow> byte list file_ops option" where
  "fops_ev d = (if d = 0 then Some my_fops_ev else None)"

lemma str_ok_length: "str_ok str \<Longrightarrow> length str = 10"
  by (simp add: str_ok_def)

text \<open>A write does to the array what its pure model does, and returns the same.\<close>

lemma h_write_ev_run:
  assumes "cfu_ok um (e_cfu e)" and "str_ok (globals m)"
  shows "run_state (h_write_ev e buf cnt off) m =
    (case my_write_ev (e_cfu e) buf cnt (globals m) of (_, r, str1) \<Rightarrow>
       ((map_sum id sint r, off), m\<lparr>globals := str1,
          events := events m @ [Mutex_lock ''my_lock'', Sleep, Mutex_unlock ''my_lock'']\<rparr>))"
proof -
  obtain nc bs where c: "e_cfu e buf (min (unat cnt) 9) = (nc, bs)"
    by (cases "e_cfu e buf (min (unat cnt) 9)")
  from assms(2) have l: "length (globals m) = 10" by (rule str_ok_length)
  have "length bs \<le> 9" using cfu_ok_length [OF assms(1) c] by simp
  then have "length (blit (globals m) 0 bs) = 10" using l by (simp add: blit_def)
  with c l show ?thesis by (simp add: h_write_ev_def my_write_ev_def Let_def)
qed

lemma h_write_ev_good:
  assumes "env_ok e"
  shows "good str_ok quiet (h_write_ev e buf cnt off)"
proof (rule goodI)
  fix g and tr :: "event list"
  assume g: "str_ok g"
  from assms obtain um where um: "cfu_ok um (e_cfu e)" by (auto simp: env_ok_def)
  from my_write_ev_ok [OF um g, of buf cnt]
  show "\<exists>r g1 evs. run_state (h_write_ev e buf cnt off) \<lparr>globals = g, events = tr\<rparr> =
      (r, \<lparr>globals = g1, events = tr @ evs\<rparr>) \<and> str_ok g1 \<and> quiet evs"
    using g h_write_ev_run [OF um, of "\<lparr>globals = g, events = tr\<rparr>" buf cnt off]
    by (auto simp: quiet_def allowed_def split: prod.split)
qed

lemma h_read_ev_good: "good str_ok quiet (h_read_ev e buf cnt off)"
  by (rule goodI) (auto simp: h_read_ev_def str_ok_cstr quiet_def allowed_def split: prod.split)

interpretation mod_ev: file_module fops_ev str_ok quiet env_ok
  by unfold_locales
    (auto simp: fops_ev_def my_fops_ev_def no_ops_def h_write_ev_good h_read_ev_good
      quiet_append split: if_splits)

section \<open>Properties\<close>

text \<open>
  C34: After any writes the array is terminated, so a read always finds a string, of at most
  nine bytes; a further write that succeeds reports all bytes as written, keeps the first nine
  and leaves the rest of the old content behind them, which the next read returns up to the
  first zero.
\<close>

theorem event_read_after_write:
  assumes "cfu_ok um cfu" and "srfb_ok srfb" and "fst (cfu buf (min (unat cnt) 9)) = 0"
    and "s = fold (\<lambda>(buf, cnt) s. snd (snd (my_write_ev cfu buf cnt s))) ws (replicate 10 0)"
    and "my_write_ev cfu buf cnt s = (lk, r, s1)"
  shows "r = Inr cnt \<and> (\<exists>txt. my_read_ev srfb ubuf n off s1 =
      Ret ([Lock ''my_lock'', Unlock ''my_lock''], srfb ubuf n off txt) \<and> length txt \<le> 9 \<and>
      txt = cstr (map (\<lambda>i. um (buf + of_nat i)) [0..<min (unat cnt) 9] @ drop (min (unat cnt) 9) s))"
proof -
  have "str_ok (replicate 10 0)" by (simp add: str_ok_def)
  then have ok: "str_ok s" unfolding assms(4) by (rule writes_ok [OF assms(1)])
  let ?n = "min (unat cnt) 9"
  have "snd (cfu buf ?n) = map (\<lambda>i. um (buf + of_nat i)) [0..<?n]"
    using cfu_ok_full [OF assms(1), of buf ?n] assms(3) by (cases "cfu buf ?n") simp
  with assms(3,5) my_write_ev_effect(1) [OF assms(1) ok refl, of buf cnt]
  have r: "r = Inr cnt" "s1 = map (\<lambda>i. um (buf + of_nat i)) [0..<?n] @ drop ?n s" by auto
  have "str_ok s1" using my_write_ev_ok [OF assms(1) ok, of buf cnt] assms(5) by simp
  from str_ok_cstr [OF this] have "length (cstr s1) \<le> 9" "my_read_ev srfb ubuf n off s1 =
      Ret ([Lock ''my_lock'', Unlock ''my_lock''], srfb ubuf n off (cstr s1))"
    by (simp_all add: my_read_ev_def take_cstr Let_def)
  with r show ?thesis by blast
qed

theorem event_read_after_write_witness:
  "my_read_ev srfb_all 0x9000 20 0
     (snd (snd (my_write_ev (cfu_all (\<lambda>a. ucast a)) 0x41 2
       (snd (snd (my_write_ev (cfu_all (\<lambda>a. ucast a)) 0x61 5 (replicate 10 0))))))) =
   Ret ([Lock ''my_lock'', Unlock ''my_lock''], srfb_all 0x9000 20 0 (str_bytes ''ABcde''))"
proof -
  let ?cfu = "cfu_all (\<lambda>a. ucast a)"
  let ?s = "fold (\<lambda>(buf, cnt) s. snd (snd (my_write_ev ?cfu buf cnt s))) [(0x61, 5)] (replicate 10 0)"
  obtain lk r s1 where w: "my_write_ev ?cfu 0x41 2 ?s = (lk, r, s1)"
    by (cases "my_write_ev ?cfu 0x41 2 ?s") auto
  have z: "fst (?cfu 0x41 (min (unat (2 :: u64)) 9)) = 0" by (simp add: cfu_all_def)
  have s: "?s = str_bytes ''abcde'' @ replicate 5 0"
    by code_simp
  have "cstr (map (\<lambda>i. ucast (0x41 + of_nat i :: u64)) [0..<min (unat (2 :: u64)) 9] @
      drop (min (unat (2 :: u64)) 9) ?s) = str_bytes ''ABcde''"
    unfolding s by code_simp
  with event_read_after_write [OF cfu_ok_cfu_all srfb_ok_all z refl w, of "0x9000" 20 0] w
  show ?thesis by simp
qed

text \<open>
  C33: The module over its life: whatever processes do with the device, from a load to the unload,
  the array stays a string of at most nine characters, no call takes the mutex twice, sleeps where
  it must not or reads past the array, and the device is all that is acquired and given back.
\<close>

theorem event_module_sound:
  assumes "\<forall>fc \<in> set cs. call_ok env_ok fc"
  shows "let (m, fs) = history fops_ev cs (replicate 10 0)
    in str_ok (globals m) \<and> length (cstr (globals m)) \<le> 9 \<and> allowed (events m) \<and>
       kres_run (fst (my_init_ev 0) @ calls (events m) @ my_exit_ev) {#} = Some {#}"
proof -
  have "str_ok (replicate 10 0)" by (simp add: str_ok_def)
  from mod_ev.history_sound [OF this assms] show ?thesis
    by (auto simp: mod_ev.sound_def quiet_def str_ok_cstr my_init_ev_def my_exit_ev_def accounting
        split: prod.split)
qed

theorem event_module_sound_witness:
  "let (m, fs) = history fops_ev [Open 3 0 True, Write 3 (env_all 65) 0x7000 20 0, Read 3 (env_all 65) 0x8000 20 0]
     (replicate 10 0) in str_ok (globals m) \<and> allowed (events m)"
proof -
  have "\<forall>fc \<in> set [Open 3 0 True, Write 3 (env_all 65) 0x7000 20 0, Read 3 (env_all 65) 0x8000 20 0].
      call_ok env_ok fc" by (simp add: env_ok_all vfs_args_def)
  from event_module_sound [OF this] show ?thesis by (auto split: prod.splits)
qed

end
