(* ===== verification/Hack_Device.thy ===== *)
theory Hack_Device
  imports Kernel
begin

text \<open>
  The vulnerable device of \<open>11/hack/kern/pb173.c\<close> and the program \<open>11/hack/user/pb173.c\<close> that
  attacks it: a write copies as many bytes as the caller says into a structure of ten
  characters followed by a function pointer, then calls the pointer.
\<close>

section \<open>Memory layout\<close>

text \<open>
  \<open>struct my_struct\<close> on the 64-bit target: ten characters, six bytes of padding, eight bytes of
  pointer, least significant byte first.
\<close>

definition le64 :: "u64 \<Rightarrow> byte list" where
  "le64 w = le32 (ucast w) @ le32 (ucast (drop_bit 32 w))"

definition of_le64 :: "byte list \<Rightarrow> u64" where
  "of_le64 bs = ucast (of_le32 (take 4 bs)) OR push_bit 32 (ucast (of_le32 (drop 4 bs)))"

lemma length_le64 [simp]: "length (le64 w) = 8"
  by (simp add: le64_def)

lemma of_le64_le64 [simp]: "of_le64 (le64 w) = w"
proof -
  have "of_le64 (le64 w) = ucast (ucast w :: u32) OR push_bit 32 (ucast (ucast (drop_bit 32 w) :: u32))"
    by (simp add: of_le64_def le64_def)
  also have "\<dots> = w"
  proof (rule bit_word_eqI)
    fix n assume "n < LENGTH(64)"
    then show "bit (ucast (ucast w :: u32) OR
        push_bit 32 (ucast (ucast (drop_bit 32 w) :: u32)) :: u64) n = bit w n"
      by (cases "n < 32") (auto simp: bit_simps)
  qed
  finally show ?thesis .
qed

definition fun_off :: nat where "fun_off = 16"
definition my_struct_size :: nat where "my_struct_size = 24"

definition get_fun :: "byte list \<Rightarrow> addr" where
  "get_fun s = of_le64 (take 8 (drop fun_off s))"

definition set_fun :: "byte list \<Rightarrow> addr \<Rightarrow> byte list" where
  "set_fun s p = blit s fun_off (le64 p)"

section \<open>The module\<close>

text \<open>
  What there is to call, and the state a call changes: \<open>uid\<close> is the identity of the running
  process in the kernel, \<open>been_here\<close> and \<open>old_uid\<close> are globals of the attacking program.
  Which function a pointer points to, if any, is an argument: \<open>code\<close>.
\<close>

datatype fn = My_fun | User_fun

record hack_state =
  my_s :: "byte list"
  uid :: u32
  been_here :: u32
  old_uid :: u32

definition my_fun :: "hack_state \<Rightarrow> hack_state" where
  "my_fun st = st"

definition user_fun :: "hack_state \<Rightarrow> hack_state" where
  "user_fun st = st\<lparr>been_here := 1, old_uid := uid st, uid := 0\<rparr>"

definition call_fn :: "(addr \<Rightarrow> fn option) \<Rightarrow> addr \<Rightarrow> hack_state \<Rightarrow> hack_state exec" where
  "call_fn code p st =
     (case code p of None \<Rightarrow> Fault | Some My_fun \<Rightarrow> Ret (my_fun st) | Some User_fun \<Rightarrow> Ret (user_fun st))"

definition my_write_hack ::
  "(addr \<Rightarrow> fn option) \<Rightarrow> addr \<Rightarrow> copy_from_user \<Rightarrow> addr \<Rightarrow> u64 \<Rightarrow> hack_state \<Rightarrow>
   ((errno + u64) \<times> hack_state) exec" where
  "my_write_hack code my_fun_at cfu buf cnt st =
     (let s0 = set_fun (my_s st) my_fun_at; (nc, bs) = cfu buf (unat cnt)
      in if my_struct_size < unat cnt then Fault
         else let s1 = blit s0 0 bs; st1 = st\<lparr>my_s := s1\<rparr>
              in if nc \<noteq> 0 then Ret (Inl EFAULT, st1)
                 else exec_bind (call_fn code (get_fun s1) st1) (\<lambda>st2. Ret (Inr cnt, st2)))"

definition my_init_hack :: "int \<Rightarrow> kcall list \<times> int" where
  "my_init_hack r = ([Misc_register 0 r], r)"

definition my_exit_hack :: "kcall list" where
  "my_exit_hack = [Misc_deregister 0]"

section \<open>The attacking program\<close>

text \<open>
  \<open>his\<close> is laid out as the module's structure is; its padding has any content. The program
  writes it if its first argument starts with 1, and ten letters otherwise; the device could
  be opened. It ends with an error, with a shell, or with neither.
\<close>

datatype hack_end = Err_write | Run_shell | Couldnt

definition his_bytes :: "byte list \<Rightarrow> addr \<Rightarrow> byte list" where
  "his_bytes pad user_fun_at = replicate 10 0 @ pad @ le64 user_fun_at"

definition hack_main ::
  "(addr \<Rightarrow> fn option) \<Rightarrow> addr \<Rightarrow> addr \<Rightarrow> byte list \<Rightarrow> bool \<Rightarrow> hack_state \<Rightarrow>
   (hack_end \<times> hack_state) exec" where
  "hack_main code my_fun_at user_fun_at pad attack st =
     (let src = (if attack then his_bytes pad user_fun_at else str_bytes ''normal run'');
          cnt = of_nat (length src)
      in exec_bind (my_write_hack code my_fun_at (\<lambda>a n. (0, take n src)) 0 cnt st) (\<lambda>(r, st1).
           Ret (if r \<noteq> Inr cnt then Err_write else if uid st1 = 0 then Run_shell else Couldnt, st1)))"

section \<open>What is called\<close>

lemma get_set_fun: "length s = my_struct_size \<Longrightarrow> get_fun (set_fun s p) = p"
  by (simp add: get_fun_def set_fun_def blit_def fun_off_def my_struct_size_def)

lemma get_fun_blit_short:
  assumes "length s = my_struct_size" and "length bs \<le> fun_off"
  shows "get_fun (blit s 0 bs) = get_fun s"
proof -
  have "drop fun_off (blit s 0 bs) = drop fun_off s"
    using assms by (simp add: blit_def)
  then show ?thesis by (simp add: get_fun_def)
qed

lemma get_fun_blit_full:
  assumes "length s = my_struct_size" and "length bs = my_struct_size"
  shows "get_fun (blit s 0 bs) = get_fun bs"
  using assms by (simp add: blit_def)

section \<open>Properties\<close>

text \<open>
  A write of at most sixteen bytes (the characters and the padding) cannot reach the
  pointer: the module's own function is called and the identity of the process stays as it
  was; a write past the end of the structure leaves the object.
\<close>

theorem hack_short_write:
  assumes "cfu_ok um cfu" and "length (my_s st) = my_struct_size"
    and "code my_fun_at = Some My_fun" and "unat cnt \<le> 16"
  shows "\<exists>s1. length s1 = my_struct_size \<and> my_write_hack code my_fun_at cfu buf cnt st =
    Ret (if fst (cfu buf (unat cnt)) = 0 then Inr cnt else Inl EFAULT, st\<lparr>my_s := s1\<rparr>)"
proof -
  obtain nc bs where c: "cfu buf (unat cnt) = (nc, bs)" by (cases "cfu buf (unat cnt)")
  have l: "length bs = unat cnt" by (rule cfu_ok_length [OF assms(1) c])
  let ?s1 = "blit (set_fun (my_s st) my_fun_at) 0 bs"
  have s0: "length (set_fun (my_s st) my_fun_at) = my_struct_size"
    using assms(2) by (simp add: set_fun_def fun_off_def my_struct_size_def)
  then have "get_fun ?s1 = my_fun_at"
    using assms(2,4) l by (simp add: get_fun_blit_short get_set_fun fun_off_def)
  moreover have "length ?s1 = my_struct_size" using s0 l assms(4) by (simp add: my_struct_size_def)
  ultimately show ?thesis
    using assms(3,4) c
    by (intro exI [of _ ?s1])
      (simp add: my_write_hack_def Let_def call_fn_def my_fun_def my_struct_size_def)
qed

definition hack_code :: "addr \<Rightarrow> fn option" where
  "hack_code p = (if p = 0xffffffffa0000000 then Some My_fun
     else if p = 0x400b00 then Some User_fun else None)"

definition hack_start :: hack_state where
  "hack_start = \<lparr>my_s = replicate 24 0, uid = 1000, been_here = 0, old_uid = 0\<rparr>"

theorem hack_short_write_witness:
  "\<exists>s1. my_write_hack hack_code 0xffffffffa0000000 (cfu_all (\<lambda>_. 0x41)) 0x7000 16 hack_start =
     Ret (Inr 16, hack_start\<lparr>my_s := s1\<rparr>)"
  using hack_short_write [OF cfu_ok_cfu_all, where st = hack_start and code = hack_code
      and my_fun_at = "0xffffffffa0000000" and cnt = 16 and um = "\<lambda>_. 0x41" and buf = "0x7000"]
  by (auto simp: hack_start_def hack_code_def my_struct_size_def cfu_all_def)

text \<open>
  C35: The attack: run with the argument 1 the program makes the kernel call its own function,
  which sets the identity of the process to 0 and keeps the old one; the program then starts
  its shell. Run otherwise it leaves the identity alone, and has a shell only if it had the
  identity 0 before.
\<close>

theorem hack_gives_root:
  assumes "length (my_s st) = my_struct_size" and "length pad = 6"
    and "code my_fun_at = Some My_fun" and "code user_fun_at = Some User_fun"
  shows "(\<exists>s1. hack_main code my_fun_at user_fun_at pad True st =
      Ret (Run_shell, st\<lparr>my_s := s1, been_here := 1, old_uid := uid st, uid := 0\<rparr>)) \<and>
    (\<exists>s1. hack_main code my_fun_at user_fun_at pad False st =
      Ret (if uid st = 0 then Run_shell else Couldnt, st\<lparr>my_s := s1\<rparr>))"
proof
  have s0: "length (set_fun (my_s st) my_fun_at) = my_struct_size"
    using assms(1) by (simp add: set_fun_def fun_off_def my_struct_size_def)
  have "length (his_bytes pad user_fun_at) = 24" using assms(2) by (simp add: his_bytes_def)
  moreover have "get_fun (his_bytes pad user_fun_at) = user_fun_at"
    using assms(2) by (simp add: get_fun_def his_bytes_def fun_off_def)
  ultimately show "\<exists>s1. hack_main code my_fun_at user_fun_at pad True st =
      Ret (Run_shell, st\<lparr>my_s := s1, been_here := 1, old_uid := uid st, uid := 0\<rparr>)"
    using s0 assms(4)
    by (intro exI [of _ "blit (set_fun (my_s st) my_fun_at) 0 (his_bytes pad user_fun_at)"])
      (simp add: hack_main_def my_write_hack_def Let_def get_fun_blit_full call_fn_def
        user_fun_def my_struct_size_def)
  show "\<exists>s1. hack_main code my_fun_at user_fun_at pad False st =
      Ret (if uid st = 0 then Run_shell else Couldnt, st\<lparr>my_s := s1\<rparr>)"
    using s0 assms(1,3)
    by (intro exI [of _ "blit (set_fun (my_s st) my_fun_at) 0 (str_bytes ''normal run'')"])
      (simp add: hack_main_def my_write_hack_def Let_def get_fun_blit_short get_set_fun call_fn_def
        my_fun_def my_struct_size_def fun_off_def)
qed

theorem hack_gives_root_witness:
  "\<exists>s1. hack_main hack_code 0xffffffffa0000000 0x400b00 (replicate 6 0) True hack_start =
     Ret (Run_shell, hack_start\<lparr>my_s := s1, been_here := 1, old_uid := 1000, uid := 0\<rparr>)"
  using hack_gives_root [where st = hack_start and code = hack_code and pad = "replicate 6 0"
      and my_fun_at = "0xffffffffa0000000" and user_fun_at = "0x400b00"]
  by (simp add: hack_start_def hack_code_def my_struct_size_def)

end
