(* ===== verification/Fifo_Device.thy ===== *)
theory Fifo_Device
  imports Module_Files
begin

text \<open>
  The fifo device of \<open>07/pb173.c\<close>: a write puts bytes into a queue of the kernel, a read takes
  them out. The queue is the kernel's \<open>kfifo\<close>, an argument of the model over the list of the
  bytes it holds; this theory states what the two modules that use one rely on.
\<close>

section \<open>The queue of the kernel\<close>

text \<open>
  Each operation gives the number of bytes copied and the content after it;
  \<open>kfifo_to_user\<close> also gives what reached user memory. The error codes of the two user
  copies are not looked at by the modules.
\<close>

record kfifo =
  kfifo_from_user :: "addr \<Rightarrow> u64 \<Rightarrow> byte list \<Rightarrow> u32 \<times> byte list"
  kfifo_to_user :: "addr \<Rightarrow> u64 \<Rightarrow> byte list \<Rightarrow> u32 \<times> byte list \<times> user_writes"
  kfifo_in :: "byte list \<Rightarrow> byte list \<Rightarrow> u32 \<times> byte list"

definition KFIFO_SIZE :: nat where "KFIFO_SIZE = 8192"

definition kfifo_ok :: "(addr \<Rightarrow> byte) \<Rightarrow> kfifo \<Rightarrow> bool" where
  "kfifo_ok um f \<longleftrightarrow>
     (\<forall>buf cnt q. length q \<le> KFIFO_SIZE \<longrightarrow>
       (case kfifo_from_user f buf cnt q of (n, q1) \<Rightarrow>
          unat n \<le> unat cnt \<and> unat n \<le> KFIFO_SIZE - length q \<and>
          q1 = q @ map (\<lambda>i. um (buf + of_nat i)) [0..<unat n])) \<and>
     (\<forall>buf cnt q. length q \<le> KFIFO_SIZE \<longrightarrow>
       (case kfifo_to_user f buf cnt q of (n, q1, ws) \<Rightarrow>
          unat n \<le> unat cnt \<and> unat n \<le> length q \<and> q1 = drop (unat n) q \<and>
          ws = [(buf, take (unat n) q)])) \<and>
     (\<forall>bs q. length q \<le> KFIFO_SIZE \<longrightarrow>
       kfifo_in f bs q =
         (let n = min (length bs) (KFIFO_SIZE - length q) in (of_nat n, q @ take n bs)))"

text \<open>A queue that copies as much as it can.\<close>

definition kfifo_all :: "(addr \<Rightarrow> byte) \<Rightarrow> kfifo" where
  "kfifo_all um =
     \<lparr>kfifo_from_user = (\<lambda>buf cnt q. let n = min (unat cnt) (KFIFO_SIZE - length q)
        in (of_nat n, q @ map (\<lambda>i. um (buf + of_nat i)) [0..<n])),
      kfifo_to_user = (\<lambda>buf cnt q. let n = min (unat cnt) (min KFIFO_SIZE (length q))
        in (of_nat n, drop n q, [(buf, take n q)])),
      kfifo_in = (\<lambda>bs q. let n = min (length bs) (KFIFO_SIZE - length q)
        in (of_nat n, q @ take n bs))\<rparr>"

lemma unat_small: "n \<le> KFIFO_SIZE \<Longrightarrow> unat (of_nat n :: u32) = n"
  by (simp add: unat_of_nat KFIFO_SIZE_def)

lemma kfifo_ok_all: "kfifo_ok um (kfifo_all um)"
  by (simp add: kfifo_ok_def kfifo_all_def Let_def unat_small min.coboundedI1 min.coboundedI2)

section \<open>The device\<close>

definition my_write_fifo :: "kfifo \<Rightarrow> addr \<Rightarrow> u64 \<Rightarrow> byte list \<Rightarrow> int \<times> byte list" where
  "my_write_fifo f buf cnt q =
     (let (nbytes, q1) = kfifo_from_user f buf cnt q in (sint nbytes, q1))"

definition my_read_fifo ::
  "kfifo \<Rightarrow> addr \<Rightarrow> u64 \<Rightarrow> byte list \<Rightarrow> int \<times> byte list \<times> user_writes" where
  "my_read_fifo f buf cnt q =
     (let (nbytes, q1, ws) = kfifo_to_user f buf cnt q in (sint nbytes, q1, ws))"

text \<open>\<open>INIT_KFIFO\<close> empties the queue; the result of \<open>misc_register\<close> is ignored.\<close>

definition my_init_fifo :: "int \<Rightarrow> byte list \<times> kcall list \<times> int" where
  "my_init_fifo r = ([], [Misc_register 0 r], 0)"

definition my_exit_fifo :: "kcall list" where
  "my_exit_fifo = [Misc_deregister 0]"

section \<open>Streams\<close>

text \<open>
  Any sequence of calls, each of which puts some bytes in and takes some out: what went in,
  what came out and what is left.
\<close>

fun stream_run ::
  "('c \<Rightarrow> byte list \<Rightarrow> byte list \<times> byte list \<times> byte list) \<Rightarrow> 'c list \<Rightarrow> byte list \<Rightarrow>
   byte list \<times> byte list \<times> byte list" where
  "stream_run step [] q = ([], [], q)"
| "stream_run step (c # cs) q =
     (let (a, d, q1) = step c q; (as, ds, q2) = stream_run step cs q1 in (a @ as, d @ ds, q2))"

definition fifo_step ::
  "('c \<Rightarrow> byte list \<Rightarrow> byte list \<times> byte list \<times> byte list) \<Rightarrow> bool" where
  "fifo_step step \<longleftrightarrow> (\<forall>c q. length q \<le> KFIFO_SIZE \<longrightarrow>
     (case step c q of (a, d, q1) \<Rightarrow> q @ a = d @ q1 \<and> length q1 \<le> KFIFO_SIZE))"

lemma stream_run_fifo:
  assumes "fifo_step step" and "length q \<le> KFIFO_SIZE"
  shows "case stream_run step cs q of (as, ds, q1) \<Rightarrow> q @ as = ds @ q1 \<and> length q1 \<le> KFIFO_SIZE"
  using assms(2)
proof (induction cs arbitrary: q)
  case Nil
  then show ?case by simp
next
  case (Cons c cs)
  obtain a d q1 where s: "step c q = (a, d, q1)" by (cases "step c q")
  have q1: "q @ a = d @ q1" "length q1 \<le> KFIFO_SIZE"
    using assms(1) [unfolded fifo_step_def, THEN spec [of _ c], THEN spec [of _ q],
      THEN mp [OF _ Cons.prems]] s by simp_all
  obtain as ds q2 where r: "stream_run step cs q1 = (as, ds, q2)" by (cases "stream_run step cs q1")
  with Cons.IH [OF q1(2)] have "q1 @ as = ds @ q2" "length q2 \<le> KFIFO_SIZE" by simp_all
  moreover have "q @ a @ as = d @ q1 @ as" using q1(1) by (metis append.assoc)
  ultimately show ?case using s r by simp
qed

text \<open>
  The calls of the device: the bytes a write reports as taken are the first ones of its buffer,
  the bytes a read delivers are those it put into user memory.
\<close>

datatype fifo_call = Fifo_write addr u64 | Fifo_read addr u64

fun fifo_call_step ::
  "(addr \<Rightarrow> byte) \<Rightarrow> kfifo \<Rightarrow> fifo_call \<Rightarrow> byte list \<Rightarrow> byte list \<times> byte list \<times> byte list" where
  "fifo_call_step um f (Fifo_write buf cnt) q =
     (let (n, q1) = my_write_fifo f buf cnt q
      in (map (\<lambda>i. um (buf + of_nat i)) [0..<nat n], [], q1))"
| "fifo_call_step um f (Fifo_read buf cnt) q =
     (let (n, q1, ws) = my_read_fifo f buf cnt q in ([], concat (map snd ws), q1))"

lemma sint_small:
  assumes "unat (n :: u32) \<le> KFIFO_SIZE"
  shows "sint n = int (unat n)"
proof -
  have "uint n = int (unat n)" by simp
  with assms have "uint n \<le> 8192" unfolding KFIFO_SIZE_def by linarith
  moreover have "- (2 ^ 31) \<le> uint n"
    by (rule order_trans [OF _ unsigned_greater_eq [of n, where 'a = int]]) simp
  ultimately have "sint n = uint n"
    unfolding sint_uint by (intro signed_take_bit_int_eq_self) simp_all
  then show ?thesis by simp
qed

lemma kfifo_from_userD:
  assumes "kfifo_ok um f" and q: "length q \<le> KFIFO_SIZE" and "kfifo_from_user f buf cnt q = (n, q1)"
  shows "unat n \<le> KFIFO_SIZE - length q" and "q1 = q @ map (\<lambda>i. um (buf + of_nat i)) [0..<unat n]"
  using assms(1) [unfolded kfifo_ok_def, THEN conjunct1, THEN spec [of _ buf], THEN spec [of _ cnt],
    THEN spec [of _ q], THEN mp [OF _ q]] assms(3) by simp_all

lemma kfifo_to_userD:
  assumes "kfifo_ok um f" and q: "length q \<le> KFIFO_SIZE" and "kfifo_to_user f buf cnt q = (n, q1, ws)"
  shows "q1 = drop (unat n) q" and "ws = [(buf, take (unat n) q)]"
  using assms(1) [unfolded kfifo_ok_def, THEN conjunct2, THEN conjunct1, THEN spec [of _ buf],
    THEN spec [of _ cnt], THEN spec [of _ q], THEN mp [OF _ q]] assms(3) by simp_all

lemma kfifo_inD:
  assumes "kfifo_ok um f" and "length q \<le> KFIFO_SIZE"
  shows "kfifo_in f bs q = (let n = min (length bs) (KFIFO_SIZE - length q) in (of_nat n, q @ take n bs))"
  using assms unfolding kfifo_ok_def by blast

lemma fifo_call_fifo:
  assumes "kfifo_ok um f"
  shows "fifo_step (fifo_call_step um f)"
  unfolding fifo_step_def
proof (intro allI impI)
  fix c :: fifo_call and q :: "byte list"
  assume q: "length q \<le> KFIFO_SIZE"
  show "case fifo_call_step um f c q of (a, d, q1) \<Rightarrow> q @ a = d @ q1 \<and> length q1 \<le> KFIFO_SIZE"
  proof (cases c)
    case (Fifo_write buf cnt)
    obtain n q1 where w: "kfifo_from_user f buf cnt q = (n, q1)" by (cases "kfifo_from_user f buf cnt q")
    note n = kfifo_from_userD [OF assms q w]
    from n(1) have "sint n = int (unat n)" by (intro sint_small) simp
    with Fifo_write w n q show ?thesis by (simp add: my_write_fifo_def)
  next
    case (Fifo_read buf cnt)
    obtain n q1 ws where r: "kfifo_to_user f buf cnt q = (n, q1, ws)"
      by (cases "kfifo_to_user f buf cnt q")
    with kfifo_to_userD [OF assms q r] Fifo_read q show ?thesis by (simp add: my_read_fifo_def)
  qed
qed

section \<open>The module\<close>

text \<open>
  The handlers as the file system calls them; the globals are the queue. The copies of the queue may
  sleep, no lock is held. The offset is not moved.
\<close>

definition h_write_fifo ::
  "kfifo \<Rightarrow> env \<Rightarrow> addr \<Rightarrow> u64 \<Rightarrow> u64 \<Rightarrow> (byte list, (errno + int) \<times> u64) handler" where
  "h_write_fifo f e buf cnt off = do {
     q \<leftarrow> load id;
     let (nbytes, q1) = kfifo_from_user f buf cnt q;
     emit [Sleep];
     store (\<lambda>_. q1);
     State_Monad.return (Inr (sint nbytes), off) }"

definition h_read_fifo ::
  "kfifo \<Rightarrow> env \<Rightarrow> addr \<Rightarrow> u64 \<Rightarrow> u64 \<Rightarrow> (byte list, (errno + int) \<times> u64) handler" where
  "h_read_fifo f e buf cnt off = do {
     q \<leftarrow> load id;
     let (nbytes, q1, ws) = kfifo_to_user f buf cnt q;
     emit (out_events ws);
     store (\<lambda>_. q1);
     State_Monad.return (Inr (sint nbytes), off) }"

definition my_fops_fifo :: "kfifo \<Rightarrow> byte list file_ops" where
  "my_fops_fifo f = no_ops\<lparr>fop_write := Some (h_write_fifo f), fop_read := Some (h_read_fifo f)\<rparr>"

definition fops_fifo :: "kfifo \<Rightarrow> nat \<Rightarrow> byte list file_ops option" where
  "fops_fifo f d = (if d = 0 then Some (my_fops_fifo f) else None)"

lemma h_fifo_runs:
  "run_state (h_write_fifo f e buf cnt off) m =
    (case my_write_fifo f buf cnt (globals m) of (r, q1) \<Rightarrow>
       ((Inr r, off), m\<lparr>globals := q1, events := events m @ [Sleep]\<rparr>))"
  "run_state (h_read_fifo f e buf cnt off) m =
    (case my_read_fifo f buf cnt (globals m) of (r, q1, ws) \<Rightarrow>
       ((Inr r, off), m\<lparr>globals := q1, events := events m @ out_events ws\<rparr>))"
  by (simp_all add: h_write_fifo_def h_read_fifo_def my_write_fifo_def my_read_fifo_def Let_def
      split: prod.split)

abbreviation queue_fits :: "byte list \<Rightarrow> bool" where
  "queue_fits q \<equiv> length q \<le> KFIFO_SIZE"

lemma fifo_call_fits:
  assumes "kfifo_ok um f" and "queue_fits q"
  shows "my_write_fifo f buf cnt q = (r, q1) \<Longrightarrow> queue_fits q1"
    and "my_read_fifo f buf cnt q = (r, q1, ws) \<Longrightarrow> queue_fits q1"
proof -
  have fits: "case fifo_call_step um f c q of (a, d, q1) \<Rightarrow> queue_fits q1" for c
    using fifo_call_fifo [OF assms(1), unfolded fifo_step_def, THEN spec [of _ c], THEN spec [of _ q]]
      assms(2) by (cases "fifo_call_step um f c q") simp
  show "my_write_fifo f buf cnt q = (r, q1) \<Longrightarrow> queue_fits q1"
    using fits [of "Fifo_write buf cnt"] by simp
  show "my_read_fifo f buf cnt q = (r, q1, ws) \<Longrightarrow> queue_fits q1"
    using fits [of "Fifo_read buf cnt"] by simp
qed

lemma h_fifo_good:
  assumes "kfifo_ok um f"
  shows "good queue_fits quiet (h_write_fifo f e buf cnt off)"
    and "good queue_fits quiet (h_read_fifo f e buf cnt off)"
proof -
  show "good queue_fits quiet (h_write_fifo f e buf cnt off)"
  proof (rule goodI)
    fix g and tr :: "event list"
    assume g: "queue_fits g"
    obtain r q1 where w: "my_write_fifo f buf cnt g = (r, q1)" by (cases "my_write_fifo f buf cnt g")
    with fifo_call_fits(1) [OF assms g w]
    show "\<exists>r g1 evs. run_state (h_write_fifo f e buf cnt off) \<lparr>globals = g, events = tr\<rparr> =
        (r, \<lparr>globals = g1, events = tr @ evs\<rparr>) \<and> queue_fits g1 \<and> quiet evs"
      by (simp add: h_fifo_runs quiet_def allowed_def)
  qed
  show "good queue_fits quiet (h_read_fifo f e buf cnt off)"
  proof (rule goodI)
    fix g and tr :: "event list"
    assume g: "queue_fits g"
    obtain r q1 ws where w: "my_read_fifo f buf cnt g = (r, q1, ws)" by (cases "my_read_fifo f buf cnt g")
    with fifo_call_fits(2) [OF assms g w]
    show "\<exists>r g1 evs. run_state (h_read_fifo f e buf cnt off) \<lparr>globals = g, events = tr\<rparr> =
        (r, \<lparr>globals = g1, events = tr @ evs\<rparr>) \<and> queue_fits g1 \<and> quiet evs"
      by (simp add: h_fifo_runs quiet_def allowed_def)
  qed
qed

lemma fifo_module: "kfifo_ok um f \<Longrightarrow> file_module (fops_fifo f) queue_fits quiet (\<lambda>_. True)"
  by unfold_locales
    (auto simp: fops_fifo_def my_fops_fifo_def no_ops_def quiet_append h_fifo_good
      split: if_splits)

text \<open>Whatever processes do, the queue stays within its 8192 bytes and no call is one it must not make.\<close>

lemma fifo_module_history:
  assumes "kfifo_ok um f" and "\<forall>fc \<in> set cs. call_ok (\<lambda>_. True) fc"
  shows "let (m, fs) = history (fops_fifo f) cs [] in queue_fits (globals m) \<and> quiet (events m)"
  using file_module.history_sound [OF fifo_module [OF assms(1)] _ assms(2), of "[]"]
  by (auto simp: file_module.sound_def [OF fifo_module [OF assms(1)]] split: prod.split)

section \<open>Properties\<close>

text \<open>
  C36: The device is a first-in first-out stream: after any sequence of writes and reads, the
  bytes reads delivered followed by the bytes still queued are the bytes the writes reported
  as taken, in order, none lost and none invented, and at most 8192 are queued.
\<close>

theorem fifo_stream:
  assumes "kfifo_ok um f"
    and "stream_run (fifo_call_step um f) cs (fst (my_init_fifo r)) = (taken, got, q)"
  shows "taken = got @ q \<and> length q \<le> KFIFO_SIZE"
  using stream_run_fifo [OF fifo_call_fifo [OF assms(1)], of "[]" cs] assms(2)
  by (simp add: my_init_fifo_def)

theorem fifo_stream_witness:
  "\<exists>taken got q. stream_run (fifo_call_step ucast (kfifo_all ucast))
      [Fifo_write 0x61 4, Fifo_read 0x9000 3, Fifo_write 0x41 2, Fifo_read 0x9000 2] [] =
      (taken, got, q) \<and> taken = got @ q \<and> got = str_bytes ''abcdA''"
proof -
  let ?cs = "[Fifo_write 0x61 4, Fifo_read 0x9000 3, Fifo_write 0x41 2, Fifo_read 0x9000 2]"
  have r: "stream_run (fifo_call_step ucast (kfifo_all ucast)) ?cs (fst (my_init_fifo 0)) =
      (str_bytes ''abcdAB'', str_bytes ''abcdA'', str_bytes ''B'')"
    by (simp add: my_init_fifo_def my_write_fifo_def my_read_fifo_def kfifo_all_def KFIFO_SIZE_def
        Let_def upt_conv_Cons str_bytes_def)
  from fifo_stream [OF kfifo_ok_all r] r show ?thesis by (simp add: my_init_fifo_def)
qed

end
