(* ===== verification/Net_Device.thy ===== *)
theory Net_Device
  imports Fifo_Device
begin

text \<open>
  The network driver of homework 12, \<open>12/pb173.c\<close> and \<open>12/packet.c\<close>: once a second a timer
  hands a canned packet to the network stack, what the stack transmits goes into a queue that
  a character device reads, and what is written to that device is handed to the stack.
\<close>

section \<open>State\<close>

text \<open>The 242 bytes of \<open>packet.c\<close>: an Ethernet and an IP header and an ICMP echo request.\<close>

definition my_packet_init :: "byte list" where
  "my_packet_init =
     [0x00, 0x00, 0x00, 0x00, 0x00, 0x00, 0x00, 0x00, 0x00, 0x00, 0x00, 0x00, 0x08, 0x00, 0x45, 0x00,
      0x00, 0xe4, 0x00, 0x00, 0x40, 0x00, 0x40, 0x01, 0x3c, 0x17, 0x7f, 0x00, 0x00, 0x01, 0x7f, 0x00,
      0x00, 0x01, 0x08, 0x00, 0x5c, 0x67, 0x73, 0x95, 0x00, 0x01, 0x77, 0x2c, 0x06, 0x4d, 0x00, 0x00,
      0x00, 0x00, 0x01, 0x92, 0x0e, 0x00, 0x00, 0x00, 0x00, 0x00] @ map of_nat [0x10..<0xc8]"

definition my_packet_size :: nat where
  "my_packet_size = length my_packet_init"

record net_state =
  my_packet :: "byte list"
  queue :: "byte list"

definition net_start :: net_state where
  "net_start = \<lparr>my_packet = my_packet_init, queue = []\<rparr>"

section \<open>The network device\<close>

text \<open>\<open>my_timer\<close> is the address of the timer, in the private part of the device.\<close>

definition my_ndev_open :: "addr \<Rightarrow> kcall list" where
  "my_ndev_open my_timer = [Mod_timer my_timer]"

definition my_ndev_stop :: "addr \<Rightarrow> kcall list" where
  "my_ndev_stop my_timer = [Del_timer_sync my_timer]"

text \<open>A packet to transmit: what the queue has no room for is dropped without a word.\<close>

definition my_start_xmit :: "kfifo \<Rightarrow> addr \<Rightarrow> byte list \<Rightarrow> net_state \<Rightarrow> kcall list \<times> net_state" where
  "my_start_xmit f skb data st =
     ([Free_skb skb], st\<lparr>queue := snd (kfifo_in f data (queue st))\<rparr>)"

text \<open>
  One tick: \<open>pack\<close> is the buffer allocated, which is used without a check; the packet handed
  over is what \<open>my_packet\<close> holds at that moment.
\<close>

definition timer_fn :: "addr \<Rightarrow> addr \<Rightarrow> net_state \<Rightarrow> (kcall list \<times> byte list \<times> net_state) exec" where
  "timer_fn my_timer pack st =
     (if pack = NULL then Fault
      else Ret ([Alloc_skb pack, Netif_rx pack, Mod_timer my_timer],
                take my_packet_size (my_packet st),
                st\<lparr>my_packet := (my_packet st)[23 := my_packet st ! 23 + 1]\<rparr>))"

section \<open>The character device\<close>

text \<open>
  A packet from user memory: the buffer has as many bytes as the low 32 bits of the count
  say, the copy as many as the count says.
\<close>

definition my_write_net ::
  "addr \<Rightarrow> copy_from_user \<Rightarrow> addr \<Rightarrow> u64 \<Rightarrow> (kcall list \<times> byte list option \<times> (errno + u64)) exec" where
  "my_write_net pack cfu buf cnt =
     (let len = (ucast cnt :: u32); (nc, data) = cfu buf (unat cnt)
      in if pack = NULL \<or> unat len < unat cnt then Fault
         else if nc \<noteq> 0 then Ret ([Alloc_skb pack, Free_skb pack], None, Inl EFAULT)
         else Ret ([Alloc_skb pack, Netif_rx pack], Some data, Inr cnt))"

definition my_read_net ::
  "kfifo \<Rightarrow> addr \<Rightarrow> u64 \<Rightarrow> net_state \<Rightarrow> int \<times> net_state \<times> user_writes" where
  "my_read_net f buf cnt st =
     (let (bytes, q1, ws) = kfifo_to_user f buf cnt (queue st)
      in (sint bytes, st\<lparr>queue := q1\<rparr>, ws))"

section \<open>Load and unload\<close>

definition my_init_net :: "int \<Rightarrow> addr \<Rightarrow> int \<Rightarrow> kcall list \<times> int" where
  "my_init_net misc ndev err =
     (let tr = [Misc_register 0 misc, Alloc_etherdev ndev]
      in if ndev = NULL then (tr, -5)
         else if err \<noteq> 0 then (tr @ [Setup_timer ndev, Register_netdev err], -5)
         else (tr @ [Setup_timer ndev, Register_netdev err], 0))"

text \<open>Unregistering a device that is up stops it first.\<close>

definition my_exit_net :: "bool \<Rightarrow> addr \<Rightarrow> kcall list" where
  "my_exit_net up ndev =
     [Misc_deregister 0] @ (if up then my_ndev_stop ndev else []) @
     [Unregister_netdev, Free_netdev ndev]"

section \<open>The packets of the timer\<close>

fun ticks :: "nat \<Rightarrow> net_state \<Rightarrow> net_state" where
  "ticks 0 st = st"
| "ticks (Suc n) st =
     (case timer_fn 0x100 0x200 (ticks n st) of Ret (_, _, st1) \<Rightarrow> st1 | Fault \<Rightarrow> ticks n st)"

lemma length_my_packet: "length my_packet_init = 242"
  by (simp add: my_packet_init_def)

lemma my_packet_23: "my_packet_init ! 23 = 1"
  by (simp add: my_packet_init_def nth_append)

lemma ticks_packet:
  "my_packet (ticks k net_start) = my_packet_init[23 := 1 + of_nat k]"
proof (induction k)
  case 0
  have "my_packet_init[23 := 1] = my_packet_init"
    using my_packet_23 length_my_packet by (intro list_update_same_conv [THEN iffD2]) simp_all
  then show ?case by (simp add: net_start_def)
next
  case (Suc k)
  have "(1 + of_nat k) + 1 = 1 + (of_nat (Suc k) :: byte)" by simp
  with Suc show ?case by (simp add: timer_fn_def length_my_packet)
qed

text \<open>
  The IP header checksum: the big-endian 16-bit words of a correct header add up to zero in
  one's complement arithmetic.
\<close>

fun be16_sum :: "byte list \<Rightarrow> nat" where
  "be16_sum [] = 0"
| "be16_sum [a] = 256 * unat a"
| "be16_sum (a # b # bs) = 256 * unat a + unat b + be16_sum bs"

definition ip_checksum_ok :: "byte list \<Rightarrow> bool" where
  "ip_checksum_ok header \<longleftrightarrow> be16_sum header mod 65535 = 0"

lemma header_sum:
  "be16_sum (take 20 (drop 14 (my_packet_init[23 := b]))) = 131069 + unat b"
proof -
  have "my_packet_init[23 := b] =
     [0x00, 0x00, 0x00, 0x00, 0x00, 0x00, 0x00, 0x00, 0x00, 0x00, 0x00, 0x00, 0x08, 0x00, 0x45, 0x00,
      0x00, 0xe4, 0x00, 0x00, 0x40, 0x00, 0x40, b, 0x3c, 0x17, 0x7f, 0x00, 0x00, 0x01, 0x7f, 0x00,
      0x00, 0x01] @ drop 34 my_packet_init"
    by (simp add: my_packet_init_def list_update_append)
  then show ?thesis by simp
qed

lemma header_ok_iff: "ip_checksum_ok (take 20 (drop 14 (my_packet_init[23 := b]))) \<longleftrightarrow> b = 1"
proof -
  have "unat b < 256" using unsigned_less [of b, where 'a = nat] by simp
  have "(131069 + unat b) mod 65535 = 0 \<longleftrightarrow> unat b = 1"
  proof (cases "unat b")
    case (Suc u)
    with \<open>unat b < 256\<close> have "(131069 + unat b) mod 65535 = u" by (simp add: mod_if)
    with Suc show ?thesis by simp
  qed simp
  then show ?thesis by (simp add: ip_checksum_ok_def header_sum word_unat_eq_iff)
qed

section \<open>The queue\<close>

datatype net_call = Xmit addr "byte list" | Net_read addr u64

text \<open>Taken of a packet: its first bytes, as many as there is room for.\<close>

fun net_call_step :: "kfifo \<Rightarrow> net_call \<Rightarrow> byte list \<Rightarrow> byte list \<times> byte list \<times> byte list" where
  "net_call_step f (Xmit skb data) q =
     (take (KFIFO_SIZE - length q) data, [],
      queue (snd (my_start_xmit f skb data (net_start\<lparr>queue := q\<rparr>))))"
| "net_call_step f (Net_read buf cnt) q =
     (let (n, st1, ws) = my_read_net f buf cnt (net_start\<lparr>queue := q\<rparr>)
      in ([], concat (map snd ws), queue st1))"

lemma net_call_fifo:
  assumes "kfifo_ok um f"
  shows "fifo_step (net_call_step f)"
  unfolding fifo_step_def
proof (intro allI impI)
  fix c :: net_call and q :: "byte list"
  assume q: "length q \<le> KFIFO_SIZE"
  show "case net_call_step f c q of (a, d, q1) \<Rightarrow> q @ a = d @ q1 \<and> length q1 \<le> KFIFO_SIZE"
  proof (cases c)
    case (Xmit skb data)
    have "take (min (length data) (KFIFO_SIZE - length q)) data = take (KFIFO_SIZE - length q) data"
      by (simp add: min_def)
    with Xmit q show ?thesis by (simp add: my_start_xmit_def kfifo_inD [OF assms q] Let_def)
  next
    case (Net_read buf cnt)
    obtain n q1 ws where r: "kfifo_to_user f buf cnt q = (n, q1, ws)"
      by (cases "kfifo_to_user f buf cnt q")
    with kfifo_to_userD [OF assms q r] Net_read q show ?thesis by (simp add: my_read_net_def)
  qed
qed

section \<open>Load and unload\<close>

text \<open>What the device holds while it is loaded, up or down.\<close>

definition net_res :: "bool \<Rightarrow> addr \<Rightarrow> kres multiset" where
  "net_res up ndev = {#MiscDev 0, Netdev ndev, NetRegistered#} + (if up then {#Armed ndev#} else {#})"

lemma net_loaded: "my_init_net 0 ndev err = (tr, 0) \<Longrightarrow> kres_run tr {#} = Some (net_res False ndev)"
  by (auto simp: my_init_net_def net_res_def Let_def split: if_splits)

lemma net_up: "kres_run (my_ndev_open ndev) (net_res False ndev) = Some (net_res True ndev)"
  by (simp add: my_ndev_open_def net_res_def)

lemma net_down: "kres_run (my_ndev_stop ndev) (net_res True ndev) = Some (net_res False ndev)"
  by (simp add: my_ndev_stop_def net_res_def)

lemma net_tick:
  "timer_fn ndev pack st = Ret (tr, pkt, st1) \<Longrightarrow> kres_run tr (net_res True ndev) = Some (net_res True ndev)"
  by (auto simp: timer_fn_def net_res_def give_back_def split: if_splits)

lemma net_write:
  "my_write_net pack cfu buf cnt = Ret (tr, pkt, r) \<Longrightarrow> kres_run tr (net_res up ndev) = Some (net_res up ndev)"
  by (auto simp: my_write_net_def net_res_def give_back_def Let_def split: if_splits prod.splits)

lemma net_unloaded: "kres_run (my_exit_net up ndev) (net_res up ndev) = Some {#}"
  by (simp add: my_exit_net_def my_ndev_stop_def net_res_def accounting)

section \<open>Properties\<close>



text \<open>
  C38: What reads of the character device deliver is what the stack transmitted, in order and
  without a gap between the bytes the queue had room for; of a packet that does not fit, the
  first bytes are kept and the rest is dropped.
\<close>

theorem net_stream:
  assumes "kfifo_ok um f" and "stream_run (net_call_step f) cs [] = (taken, got, q)"
  shows "taken = got @ q \<and> length q \<le> KFIFO_SIZE"
  using stream_run_fifo [OF net_call_fifo [OF assms(1)], of "[]" cs] assms(2) by simp

theorem net_stream_witness:
  "\<exists>taken got q. stream_run (net_call_step (kfifo_all ucast))
      [Xmit 0x200 [1, 2, 3], Net_read 0x9000 2, Xmit 0x300 [4], Net_read 0x9000 9] [] =
      (taken, got, q) \<and> taken = got @ q \<and> got = [1, 2, 3, 4]"
proof -
  let ?step = "net_call_step (kfifo_all ucast)"
  have "?step (Xmit 0x200 [1, 2, 3]) [] = ([1, 2, 3], [], [1, 2, 3])"
    and "?step (Net_read 0x9000 2) [1, 2, 3] = ([], [1, 2], [3])"
    and "?step (Xmit 0x300 [4]) [3] = ([4], [], [3, 4])"
    and "?step (Net_read 0x9000 9) [3, 4] = ([], [3, 4], [])"
    by (simp_all add: my_start_xmit_def my_read_net_def kfifo_all_def KFIFO_SIZE_def Let_def)
  then have r: "stream_run (net_call_step (kfifo_all ucast))
      [Xmit 0x200 [1, 2, 3], Net_read 0x9000 2, Xmit 0x300 [4], Net_read 0x9000 9] [] =
      ([1, 2, 3, 4], [1, 2, 3, 4], [])"
    by (simp del: net_call_step.simps)
  from net_stream [OF kfifo_ok_all r] r show ?thesis by simp
qed

end
