(* ===== verification/Lessons.thy ===== *)
theory Lessons
  imports Module_Files
begin

text \<open>
  The one-function modules of the seminars: the speaker of \<open>07/pb173_example.c\<close>, the remapped
  page of \<open>05/pb173.c\<close>, the lock lesson of \<open>05/pb173_example.c\<close>, the memory and error lessons of
  \<open>01/pb173.c\<close> and \<open>06/pb173_example.c\<close>, the crashes of \<open>13/oops/pb173.c\<close>. Printed addresses are not modelled.
\<close>

section \<open>The speaker\<close>

datatype port_call = Outb byte u16 | Inb u16

text \<open>\<open>outb\<close> takes the low eight bits of its first argument.\<close>

definition beep :: "u32 \<Rightarrow> port_call list" where
  "beep hz =
     (let div_word = (ucast (1193181 div hz) :: u16);
          enable = (if hz = 0 then 0 else 3)
      in (if hz = 0 then []
          else [Outb 0xb6 0x43, Outb (ucast div_word) 0x42, Outb (ucast (drop_bit 8 div_word)) 0x42]) @
         [Inb 0x61, Outb enable 0x61])"

definition my_init_beep :: "port_call list \<times> (errno + int)" where
  "my_init_beep = (beep 1000 @ beep 1500 @ beep 1800 @ beep 300 @ beep 0, Inl EIO)"

text \<open>
  The timer: the two bytes written to port 0x42 after a control byte 0xb6 are the low and the
  high byte of the counter it is loaded with; bits 0 and 1 of port 0x61 both set turn the speaker
  on. The state is the counter, the byte expected next and whether there is sound.
\<close>

record pit =
  pit_count :: nat
  pit_low :: "nat option"
  sound :: bool

fun pit_step :: "port_call \<Rightarrow> pit \<Rightarrow> pit" where
  "pit_step (Inb p) t = t"
| "pit_step (Outb v p) t =
     (if p = 0x43 then t\<lparr>pit_low := None\<rparr>
      else if p = 0x42
      then (case pit_low t of None \<Rightarrow> t\<lparr>pit_low := Some (unat v)\<rparr>
            | Some l \<Rightarrow> t\<lparr>pit_count := l + 256 * unat v, pit_low := None\<rparr>)
      else if p = 0x61 then t\<lparr>sound := (v AND 3 = 3)\<rparr> else t)"

lemma split_u16: "unat (ucast (w :: u16) :: byte) + 256 * unat (ucast (drop_bit 8 w) :: byte) = unat w"
proof -
  have "unat w < 2 ^ 16" using unsigned_less [of w, where 'a = nat] by simp
  then have "unat w div 256 mod 256 = unat w div 256" by (simp add: less_mult_imp_div_less)
  moreover have "unat (ucast w :: byte) = unat w mod 256"
    by (simp add: unsigned_ucast_eq take_bit_eq_mod)
  moreover have "unat (ucast (drop_bit 8 w) :: byte) = unat w div 256 mod 256"
    by (simp add: unsigned_ucast_eq take_bit_eq_mod drop_bit_eq_div unat_div)
  ultimately show ?thesis by simp
qed

section \<open>The remapped page\<close>

text \<open>
  The page \<open>virt\<close> and the mapping \<open>map_at\<close> of its physical address are the same memory, of
  content \<open>page\<close>; the strings printed are the content seen through one and the other.
  \<open>free_page\<close> gets the address cast to \<open>int\<close>.
\<close>

definition my_init_05 :: "addr \<Rightarrow> addr \<Rightarrow> byte list \<Rightarrow> (kcall list \<times> (errno + int)) exec" where
  "my_init_05 virt map_at page =
     (if virt = NULL then Fault
      else exec_bind (strcpy page (str_bytes ''Example text'')) (\<lambda>page1.
        if map_at = NULL then Fault
        else exec_bind (strcpy page1 (str_bytes ''Another text'')) (\<lambda>page2.
          Ret ([Get_free_page virt, Ioremap map_at, Printk (cstr page1), Printk (cstr page1),
                Printk (cstr page2), Iounmap map_at, Free_page (scast (ucast virt :: u32))],
               Inl EIO))))"

lemma cstr_blit_0: "0 \<notin> set s \<Longrightarrow> cstr (blit b 0 (s @ [0])) = s"
proof -
  assume "0 \<notin> set s"
  then have "takeWhile (\<lambda>b. b \<noteq> 0) (s @ 0 # r) = s" for r by (induction s) auto
  then show ?thesis by (simp add: cstr_def blit_def)
qed

text \<open>
  The write through the mapping is seen through the page; the page is freed only if its address
  survives the cast, which no address of the 64-bit kernel's memory does.
\<close>

lemma my_init_05_frees:
  assumes "virt \<noteq> NULL" and "map_at \<noteq> NULL" and "length page = 4096"
    and "my_init_05 virt map_at page = Ret (tr, r)"
  shows "[b. Printk b \<leftarrow> tr] =
      [str_bytes ''Example text'', str_bytes ''Example text'', str_bytes ''Another text'']"
    and "kres_run tr {#} = Some {#} \<longleftrightarrow> scast (ucast virt :: u32) = virt"
proof -
  have nz: "0 \<notin> set (str_bytes ''Example text'')" "0 \<notin> set (str_bytes ''Another text'')"
    by (simp_all add: str_bytes_def)
  from assms have tr: "tr = [Get_free_page virt, Ioremap map_at, Printk (str_bytes ''Example text''),
      Printk (str_bytes ''Example text''), Printk (str_bytes ''Another text''), Iounmap map_at,
      Free_page (scast (ucast virt :: u32))]"
    by (auto simp: my_init_05_def strcpy_def cstr_blit_0 nz)
  show "[b. Printk b \<leftarrow> tr] =
      [str_bytes ''Example text'', str_bytes ''Example text'', str_bytes ''Another text'']"
    by (simp add: tr)
  show "kres_run tr {#} = Some {#} \<longleftrightarrow> scast (ucast virt :: u32) = virt"
    using assms(1,2) by (auto simp: tr accounting)
qed

section \<open>The lock lesson\<close>

text \<open>
  \<open>a k\<close> is what the \<open>k\<close>-th allocation returns, NULL included; an allocation with \<open>GFP_KERNEL\<close> may
  sleep, one with \<open>GFP_ATOMIC\<close> does not. The sizes are left out.
\<close>

definition my_init_05e :: "(nat \<Rightarrow> addr) \<Rightarrow> ('s, errno + int) handler" where
  "my_init_05e a = do {
     emit [Sleep, Call (Kmalloc (a 0))];
     emit [Call (Kfree (a 0))];
     spin_lock ''my_spinlock'';
     emit [Call (Kmalloc (a 1))];
     emit [Call (Kfree (a 1))];
     emit [Call (Get_free_page (a 2))];
     emit [Call (Free_page (a 2))];
     spin_unlock ''my_spinlock'';
     mutex_lock ''my_mutex'';
     emit [Sleep, Call (Kmalloc (a 3))];
     emit [Call (Kfree (a 3))];
     emit [Sleep, Call (Get_free_page (a 4))];
     emit [Call (Free_page (a 4))];
     emit [Sleep, Call (Vmalloc (a 5))];
     emit [Call (Vfree (a 5))];
     mutex_unlock ''my_mutex'';
     State_Monad.return (Inl EIO) }"

text \<open>
  Nothing sleeps under the spinlock and nothing is lost; with one of the allocations under the
  spinlock made with \<open>GFP_KERNEL\<close> the same sequence would not be allowed.
\<close>

lemma my_init_05e_good: "good (\<lambda>_. True) (\<lambda>evs. allowed evs \<and> neutral evs) (my_init_05e a)"
  by (rule goodI) (auto simp: my_init_05e_def allowed_def neutral_def accounting Bex_def)

lemma sleep_under_spinlock: "ctx_run (Spin_lock l # Sleep # evs) ([], mu) = None"
  by simp

section \<open>Allocation lessons\<close>

definition my_init_01 :: "addr \<Rightarrow> kcall list \<times> int" where
  "my_init_01 mem = ([Kmalloc mem] @ (if mem = NULL then [] else [Kfree mem]), 0)"

definition my_exit_01 :: "addr \<Rightarrow> kcall list" where
  "my_exit_01 mem =
     [Kmalloc mem] @ (if mem = NULL then [] else [Printk (str_bytes ''Bye''), Kfree mem])"

definition error_handling :: "addr \<Rightarrow> int \<Rightarrow> kcall list \<times> addr" where
  "error_handling ret positive =
     (if positive \<le> 0 then ([], NULL) else if ret = NULL then ([Kmalloc ret], NULL)
      else ([Kmalloc ret], ret))"

definition my_init_06e :: "addr \<Rightarrow> kcall list \<times> (errno + int)" where
  "my_init_06e ret =
     (let (tr, mem) = error_handling ret (-1)
      in (tr @ (if mem \<noteq> NULL then [Kfree mem] else []), Inl EIO))"

lemma lessons_clean:
  "kres_run (fst (my_init_01 mem)) {#} = Some {#}" "kres_run (my_exit_01 mem) {#} = Some {#}"
  "kres_run (fst (my_init_06e mem)) {#} = Some {#}"
  by (auto simp: my_init_01_def my_exit_01_def my_init_06e_def error_handling_def accounting)

section \<open>Crashes\<close>

text \<open>
  \<open>rd\<close> reads an integer through the pointer 0x1233, \<open>call\<close> calls what is at an address (\<open>None\<close> if there
  is nothing). A division by zero is a fault, and \<open>BUG\<close> does not return.
\<close>

definition my_init_13 :: "(addr \<Rightarrow> int option) \<Rightarrow> (addr \<Rightarrow> unit option) \<Rightarrow> u32 \<Rightarrow> int exec" where
  "my_init_13 rd call crash_type =
     (let zero = 0 :: u32
      in exec_bind
        (if crash_type = 0 then (case rd 0x1233 of None \<Rightarrow> Fault | Some v \<Rightarrow> Ret ())
         else if crash_type = 1 then (if zero = 0 then Fault else Ret ())
         else if crash_type = 2 then (case call (NOT 0 - 5) of None \<Rightarrow> Fault | Some u \<Rightarrow> Ret ())
         else Ret ())
        (\<lambda>_. Fault))"

lemma my_init_13_crashes: "my_init_13 rd call crash_type = Fault"
  by (auto simp: my_init_13_def split: option.split)

section \<open>Properties\<close>

text \<open>
  The divisor the code computes in sixteen bits and writes in two halves arrives in the
  timer: after \<open>beep\<close> the counter is 1193181 divided by the frequency, modulo 65536 (so a
  frequency below 19 Hz gives a wrong tone), and there is sound exactly for a frequency other
  than 0, whatever was written to the ports before.
\<close>

theorem beep_programs_timer:
  "let t1 = fold pit_step (beep hz) t
   in sound t1 = (hz \<noteq> 0) \<and>
      pit_count t1 = (if hz = 0 then pit_count t else (1193181 div unat hz) mod 65536)"
proof (cases "hz = 0")
  case True
  then show ?thesis by (simp add: beep_def Let_def)
next
  case False
  have "unat (ucast (1193181 div hz) :: u16) = (1193181 div unat hz) mod 65536"
    by (simp add: unsigned_ucast_eq take_bit_eq_mod unat_div)
  with False split_u16 [of "ucast (1193181 div hz)"] show ?thesis
    by (simp add: beep_def Let_def)
qed

end
