(* ===== verification/Spec2Isabelle.thy ===== *)
theory Spec2Isabelle
  imports Phantom_System Char_Race Hw03 Hw_Upgrade Preempt Pci_List Dma_System Dma_Preempt
    Event_Device Hack_Device Fifo_Device Net_Device Lessons
begin

text \<open>
  Verification of the kernel modules of a course on Linux drivers.

  The repository holds one directory per homework and per seminar, each a small module built
  against the kernel: character devices (02, 03, 04, 06, 07, 10, 11), drivers for the COMBO and
  the phantom PCI cards (08, 09, 10/example, 11/homework), a network driver (12) and two user
  programs (10/pb173.c, 11/hack/user). The modules do not call each other; what they share is
  the way they meet the kernel, and several are successive versions of one program.

  \<^bold>\<open>How the code is modelled.\<close> Integers are words of their C width (\<open>u32\<close>, \<open>u64\<close>), pointers are
  64-bit addresses with 0 for NULL, arrays are lists of bytes, structures are records. A handler
  is a function from its arguments, the module's state and the answers of the kernel and the
  hardware to its result, the new state and the list of the kernel calls it made (\<open>kcall\<close>), in
  the order of the code; errors are values (\<open>errno + 'a\<close>), and an access the C program must not
  make is the value \<open>Fault\<close> of \<open>exec\<close>. The code of the kernel is not part of the repository:
  what its functions return is an argument, and where a property relies on what they document
  (\<open>copy_from_user\<close>, \<open>simple_read_from_buffer\<close>, \<open>kfifo\<close>, the ioctl macros, the DMA engine of the
  card) that is a named hypothesis (\<open>cfu_ok\<close>, \<open>srfb_ok\<close>, \<open>kfifo_ok\<close>, \<open>ioc_ok\<close>, \<open>engine_ok\<close>) with an
  instance that satisfies it.

  \<^bold>\<open>Shared theories.\<close>
  \<^item> \<open>Prelude\<close>: words, error codes, \<open>exec\<close>, C strings, arrays and their update (\<open>blit\<close>).
  \<^item> \<open>Kernel\<close>: user memory, kernel calls, and the accounting \<open>kres_run\<close> of the resources a list of
    calls holds, which is undefined for a call that is not allowed: a release of something not
    held, a register access without a mapping, memory freed under a live callback. Its frame
    lemma says that resources nobody looks at change nothing.
  \<^item> \<open>Pci_Driver\<close>: locales for a driver's probe, remove and handlers, and histories of hotplug
    events: \<open>pci_driver\<close> (a bound device gives everything back), \<open>leaky_pci_driver\<close> (a failing
    probe loses what it had acquired, and a history leaks the sum), \<open>clean_pci_driver\<close> (nothing
    is lost and the driver's own state is restored).
  \<^item> \<open>Pci_Bus\<close>: any number of cards of one driver bound at once. Each slot has its own account, a
    call must be allowed by the account of its card and leave the others undisturbed. The locale
    \<open>bus_driver\<close> extends \<open>leaky_pci_driver\<close>: every history of plugging, callbacks and unplugging the
    kernel can produce is allowed, and an empty slot holds what its failing probes have lost. It is
    interpreted on the drivers of 08, 09 and 10/example, from the structures they register; the
    driver of 11 shares a tasklet between its cards and does not satisfy it (\<open>dma_two_cards\<close>).
  \<^item> \<open>Exclusive\<close>: the locale of a device that one process at a time may have open.
  \<^item> \<open>Irq_Line\<close>: the locale of an interrupt handler on a shared line.
  \<^item> \<open>Locked\<close>: any number of threads interleaved in small steps, with and without a lock; the
    locale \<open>locked_op\<close> gives that every run under the lock is a sequential run, mutual exclusion,
    and that the lock can always be released. Schedules run it on concrete inputs.
  \<^item> \<open>Module_Files\<close>: handlers in a state monad over the globals and the list of events others
    notice (locks, sleeping, kernel calls, bytes to user memory, wild accesses), what is allowed
    in which context, tables of file operations, and histories of the calls the file system
    makes through them. Locales: \<open>file_module\<close> (every history adds only events that are fine and
    keeps the globals well formed), \<open>counted_files\<close> (a counter of the module is the number of
    its open files), \<open>single_holder\<close> (which is at most one).

  \<^bold>\<open>Components\<close>, in the order of the theories:
  \<^item> \<open>Phantom\<close>, \<open>Phantom_System\<close> (10/example/pb173.c): minor numbers, probe with its error labels,
    remove, open, release, write, interrupt handler, init, exit; then any number of devices
    bound at once. Interprets \<open>clean_pci_driver\<close>, \<open>bus_driver\<close>, \<open>exclusive_open\<close> and \<open>irq_handler\<close>.
    Properties: no resource leaks and minors are given back in every history of overlapping devices,
    minors are distinct, the ninth device is refused, one opener, the shared line.
  \<^item> \<open>Char_Device\<close>, \<open>Char_Race\<close> (02, 03, 04, 06, \<open>my_fops\<close>): the greeting device; its versions agree
    run one at a time and differ when interleaved (lost update in 03, torn read in 02, neither
    in 04 and 06, which interpret \<open>locked_op\<close>).
  \<^item> \<open>Buf_Device\<close> (04, 06, \<open>buf_read\<close>, \<open>buf_write\<close>, \<open>my_write_open\<close>): the bounds of writes, readers
    and writers interleaved, a single writer (\<open>locked_op\<close>, \<open>exclusive_open\<close>).
  \<^item> \<open>Mem_Device\<close> (\<open>my_init\<close> and \<open>my_exit\<close> of 02, 03, 04, 06, and the memory device of 06): load and
    unload, the loop that fills 5120 pages.
  \<^item> \<open>Hw04\<close>, \<open>Hw06\<close>, \<open>Hw03\<close> (04, 06; 02, 03, 10/homework): these modules as a whole, each handler
    from its own file, with locks and sleeps. The handlers of 04 implement the pure models of
    \<open>Char_Device\<close> and \<open>Buf_Device\<close>, those of 06 are those of 04 but for one result; no history of
    calls does anything forbidden, the counters count the open files, and from load to unload
    every resource is given back. All locales of \<open>Module_Files\<close> are interpreted on these
    modules. In a history one call ends before the next begins; calls that overlap are the
    subject of \<open>Char_Race\<close> and \<open>Buf_Device\<close>.
  \<^item> \<open>Hw_Upgrade\<close>: every history of calls on the three devices of 04 has the same effect on the
    module of 06.
  \<^item> \<open>Pci_List\<close> (08/pb173.c): the snapshot of the PCI devices and its comparison on unload, the
    decoding of the bridge's information (\<open>leaky_pci_driver\<close>).
  \<^item> \<open>Irq_Card\<close> (09/pb173.c): probe, remove, interrupt handler and timer (\<open>leaky_pci_driver\<close>,
    \<open>irq_handler\<close>).
  \<^item> \<open>Dma_Card\<close>, \<open>Dma_System\<close> (11/homework/pb173.c): the same with three DMA transfers, polling, a tasklet and a
    mapping. The polling loop is a partial function; the property on it says exactly when it
    ends. The content of the DMA page and of the card follows from the trace of the probe and
    the law of the engine. With two cards bound, the one tasklet pointer of the module is the
    second card's.
  \<^item> \<open>Preempt\<close>: interrupts, timers and writes between any two calls of probe and remove. The locale
    \<open>preemptible\<close> is interpreted on the drivers of 09 and 10/example, which do nothing forbidden
    whatever arrives; the driver of 11 is not such a driver (\<open>dma_remove_race\<close>).
  \<^item> \<open>Dma_Preempt\<close>: the same question for 11, whose callbacks do change what is held: its probe is
    safe whatever arrives, its removal can free a tasklet that is scheduled.
  \<^item> \<open>Mmap_Device\<close> (10/homework/pb173.c with the program 10/pb173.c): which page an access reaches,
    and the output of the program.
  \<^item> \<open>Event_Device\<close> (11/events/pb173.c): a string that stays terminated; the module as a whole
    (\<open>file_module\<close>).
  \<^item> \<open>Hack_Device\<close> (11/hack/kern, 11/hack/user): the layout of the overwritten structure, the short
    writes that are harmless and the attack that is not.
  \<^item> \<open>Fifo_Device\<close> (07/pb173.c), \<open>Net_Device\<close> (12/pb173.c, 12/packet.c): byte streams through a kernel
    queue of 8192 bytes, the first also as a module with its table of file operations
    (\<open>file_module\<close>); the packets of the timer and their checksum.
  \<^item> \<open>Lessons\<close>: the speaker of 07/pb173_example.c against a model of the timer it programs, the
    page and its mapping in 05/pb173.c, the locks of 05/pb173_example.c, the allocations of 01/pb173.c and 06/pb173_example.c, the
    crashes of 13/oops/pb173.c.

  \<^bold>\<open>Bounds.\<close> No fuel is used: the loops of the code are structural recursions, recursions with a
  measure (the minor scan, the copy loop, the page loop), or the one partial function above.
  Histories, numbers of devices, threads and calls are unbounded.

  \<^bold>\<open>Not modelled.\<close> Messages to the log, except where a program's or a write's output is the point;
  the hex dump of the module; reference counting inside the kernel; memory reordering; the text
  debugfs shows for the counter; errors of \<open>open\<close> and of the command line in the two user
  programs; the text of the \<open>decode_and_print\<close> exercise in 06/pb173_example.c, whose body is empty.
  02/syscalls makes one system call, 13/fw is a binary, the templates under ulohy do nothing. The
  probes and removals of different cards are taken one after the other; what may come between
  their calls are callbacks.
\<close>

end
